theory Spec2Isabelle
  imports Main "HOL-Library.Word"
begin

section \<open>Library functions the service calls\<close>

subsection \<open>\<^verbatim>\<open>fmt.Sprintf("%d", n)\<close>: decimal rendering of a signed integer\<close>

text \<open>
  Go prints an \<^verbatim>\<open>int\<close> with \<^verbatim>\<open>%d\<close> as a minus sign for a negative value followed by
  the decimal digits of its magnitude, most significant first, with no leading zero.
\<close>

definition digit_char :: "nat \<Rightarrow> char" where
  "digit_char n = ''0123456789'' ! (n mod 10)"

function decimal :: "nat \<Rightarrow> string" where
  "decimal n = (if n < 10 then [digit_char n] else decimal (n div 10) @ [digit_char (n mod 10)])"
  by pat_completeness auto
termination
  by (relation "measure (\<lambda>n. n)") auto

declare decimal.simps [simp del]

definition Sprintf_d :: "int \<Rightarrow> string" where
  "Sprintf_d i = (if i < 0 then CHR ''-'' # decimal (nat (- i)) else decimal (nat i))"

subsection \<open>\<^verbatim>\<open>base64.StdEncoding.EncodeToString\<close>\<close>

text \<open>
  The standard encoding of RFC 4648: three input bytes become four characters of the
  alphabet \<^verbatim>\<open>A-Z a-z 0-9 + /\<close>; a final group of one or two bytes is padded with
  \<^verbatim>\<open>=\<close> to four characters.
\<close>

definition encodeStd :: string where
  "encodeStd = ''ABCDEFGHIJKLMNOPQRSTUVWXYZabcdefghijklmnopqrstuvwxyz0123456789+/''"

definition b64 :: "nat \<Rightarrow> char" where
  "b64 n = encodeStd ! (n mod 64)"

fun encode_bytes :: "nat list \<Rightarrow> string" where
  "encode_bytes [] = []"
| "encode_bytes [a] =
     [b64 (a div 4), b64 ((a mod 4) * 16), CHR ''='', CHR ''='']"
| "encode_bytes [a, b] =
     [b64 (a div 4), b64 ((a mod 4) * 16 + b div 16), b64 ((b mod 16) * 4), CHR ''='']"
| "encode_bytes (a # b # c # rest) =
     [b64 (a div 4), b64 ((a mod 4) * 16 + b div 16),
      b64 ((b mod 16) * 4 + c div 64), b64 (c mod 64)] @ encode_bytes rest"

definition EncodeToString :: "string \<Rightarrow> string" where
  "EncodeToString src = encode_bytes (map of_char src)"

section \<open>The domain package\<close>

type_synonym SignatureAlgorithm = string

definition AlgorithmRSA :: SignatureAlgorithm where
  "AlgorithmRSA = ''RSA''"

definition AlgorithmECDSA :: SignatureAlgorithm where
  "AlgorithmECDSA = ''ECDSA''"

text \<open>
  The key fields of a device have the type \<^verbatim>\<open>interface{}\<close>. A value of that type is
  \<^verbatim>\<open>nil\<close> or carries its dynamic type, which the type assertions of the getters test:
  one of the four key types, or any other type. The key material itself is opaque to
  the service and is a number here.
\<close>

datatype key =
    NilKey
  | RSAPublicKey nat
  | RSAPrivateKey nat
  | ECDSAPublicKey nat
  | ECDSAPrivateKey nat
  | OtherValue nat

text \<open>
  \<^verbatim>\<open>SignatureCounter\<close> is a Go \<^verbatim>\<open>int\<close>: 64 bits in two's complement on the 64-bit
  platforms the service is built for; \<^verbatim>\<open>++\<close> wraps around. The mutex \<^verbatim>\<open>mu\<close> is not
  a field of the record: a method body between \<^verbatim>\<open>d.mu.Lock()\<close> and the deferred
  \<^verbatim>\<open>d.mu.Unlock()\<close> is one atomic transformer of the device.
\<close>

record Device =
  ID :: string
  Algorithm :: SignatureAlgorithm
  Label :: string
  SignatureCounter :: "64 word"
  PublicKey :: key
  PrivateKey :: key
  LastSignature :: string

definition NewDevice :: "string \<Rightarrow> SignatureAlgorithm \<Rightarrow> string \<Rightarrow> key \<Rightarrow> key \<Rightarrow> Device" where
  "NewDevice deviceID algorithm label publicKey privateKey =
     \<lparr>ID = deviceID, Algorithm = algorithm, Label = label, SignatureCounter = 0,
      PublicKey = publicKey, PrivateKey = privateKey, LastSignature = []\<rparr>"

text \<open>
  The two methods that take the device lock are state transformers: they return the
  device as the call leaves it, together with the method's result.
\<close>

definition GetSecuredDataToSign :: "Device \<Rightarrow> string \<Rightarrow> Device \<times> string" where
  "GetSecuredDataToSign d dataToBeSigned =
     (let lastSig = LastSignature d;
          lastSig = (if lastSig = [] then EncodeToString (ID d) else lastSig)
      in (d, Sprintf_d (sint (SignatureCounter d)) @ ''_'' @ dataToBeSigned @ ''_'' @ lastSig))"

definition IncrementCounter :: "Device \<Rightarrow> string \<Rightarrow> Device" where
  "IncrementCounter d newSignature =
     d\<lparr>SignatureCounter := SignatureCounter d + 1, LastSignature := newSignature\<rparr>"

text \<open>
  The getters of the private key: the algorithm tag is checked first, then the dynamic
  type of the stored key (\<^verbatim>\<open>d.PrivateKey.(*rsa.PrivateKey)\<close>).
\<close>

definition GetRSAPrivateKey :: "Device \<Rightarrow> string + nat" where
  "GetRSAPrivateKey d =
     (if Algorithm d \<noteq> AlgorithmRSA then Inl ''device algorithm is not RSA''
      else case PrivateKey d of
             RSAPrivateKey k \<Rightarrow> Inr k
           | _ \<Rightarrow> Inl ''private key is not of type *rsa.PrivateKey'')"

definition GetECDSAPrivateKey :: "Device \<Rightarrow> string + nat" where
  "GetECDSAPrivateKey d =
     (if Algorithm d \<noteq> AlgorithmECDSA then Inl ''device algorithm is not ECDSA''
      else case PrivateKey d of
             ECDSAPrivateKey k \<Rightarrow> Inr k
           | _ \<Rightarrow> Inl ''private key is not of type *ecdsa.PrivateKey'')"

record SignatureResponse =
  Signature :: string
  SignedData :: string

section \<open>The persistence package\<close>

text \<open>
  The repository maps an id to a pointer to a device, and the handlers mutate the
  device through that pointer. The state therefore has two parts: the device objects
  allocated so far (a pointer is the position of its object), and the map of the
  repository. \<^verbatim>\<open>&Device{...}\<close> allocates the next position.
\<close>

type_synonym ref = nat

record state =
  objects :: "Device list"
  devices :: "string \<rightharpoonup> ref"

definition new_object :: "state \<Rightarrow> Device \<Rightarrow> state \<times> ref" where
  "new_object s d = (s\<lparr>objects := objects s @ [d]\<rparr>, length (objects s))"

datatype repo_error = ErrDeviceNotFound | ErrDeviceAlreadyExists

fun Error :: "repo_error \<Rightarrow> string" where
  "Error ErrDeviceNotFound = ''device not found''"
| "Error ErrDeviceAlreadyExists = ''device already exists''"

definition NewInMemoryRepository :: state where
  "NewInMemoryRepository = \<lparr>objects = [], devices = Map.empty\<rparr>"

definition Create :: "state \<Rightarrow> ref \<Rightarrow> repo_error + state" where
  "Create s device =
     (let k = ID (objects s ! device)
      in if devices s k \<noteq> None then Inl ErrDeviceAlreadyExists
         else Inr (s\<lparr>devices := (devices s)(k \<mapsto> device)\<rparr>))"

definition Get :: "state \<Rightarrow> string \<Rightarrow> repo_error + ref" where
  "Get s k = (case devices s k of None \<Rightarrow> Inl ErrDeviceNotFound | Some device \<Rightarrow> Inr device)"

text \<open>
  \<^verbatim>\<open>List\<close> ranges over the map; Go visits every key once, in an order it chooses.
  The order is an argument: a list of the keys of the map. The error it returns is
  always \<^verbatim>\<open>nil\<close>.
\<close>

definition List_devices :: "state \<Rightarrow> string list \<Rightarrow> repo_error + ref list" where
  "List_devices s order = Inr (map (\<lambda>k. the (devices s k)) order)"

definition Update :: "state \<Rightarrow> ref \<Rightarrow> repo_error + state" where
  "Update s device =
     (let k = ID (objects s ! device)
      in if devices s k = None then Inl ErrDeviceNotFound
         else Inr (s\<lparr>devices := (devices s)(k \<mapsto> device)\<rparr>))"

section \<open>The api package\<close>

record CreateDeviceRequest =
  req_ID :: string
  req_Algorithm :: SignatureAlgorithm
  req_Label :: string

record CreateDeviceResponse =
  resp_ID :: string
  resp_Algorithm :: SignatureAlgorithm
  resp_Label :: string
  resp_SignatureCounter :: "64 word"

record SignTransactionRequest =
  Data :: string

record HealthResponse =
  Status :: string
  Version :: string

text \<open>
  \<^verbatim>\<open>c.JSON(status, Response{Data: ...})\<close> or \<^verbatim>\<open>c.JSON(status, ErrorResponse{...})\<close>:
  the answer of a handler is the status code and the body.
\<close>

datatype body =
    ErrorResponse "string list"
  | HealthData HealthResponse
  | DeviceData CreateDeviceResponse
  | DeviceListData "CreateDeviceResponse list"
  | SignatureData SignatureResponse

type_synonym response = "nat \<times> body"

definition StatusOK :: nat where "StatusOK = 200"
definition StatusCreated :: nat where "StatusCreated = 201"
definition StatusBadRequest :: nat where "StatusBadRequest = 400"
definition StatusNotFound :: nat where "StatusNotFound = 404"
definition StatusConflict :: nat where "StatusConflict = 409"
definition StatusInternalServerError :: nat where "StatusInternalServerError = 500"

text \<open>
  What a handler takes from outside the repository: the request body as the JSON
  decoder leaves it (\<open>Inl\<close> its error message when the body is no JSON of the struct),
  a fresh UUID, the result of key generation, and the signers. Key generation and
  signing draw random bytes, so every call of a handler has an environment of its own.
  The signers take the key material and the message and return the signature bytes or
  the error message.
\<close>

record environment =
  uuid_New :: string
  RSAGenerate :: "string + nat \<times> nat"
  ECCGenerate :: "string + nat \<times> nat"
  RSASign :: "nat \<Rightarrow> string \<Rightarrow> string + string"
  ECDSASign :: "nat \<Rightarrow> string \<Rightarrow> string + string"
  range_order :: "string list"

text \<open>
  \<^verbatim>\<open>ShouldBindJSON\<close> decodes the body and then validates the \<^verbatim>\<open>binding:"required"\<close>
  tags: a required string field must not be empty.
\<close>

definition required_error :: "string \<Rightarrow> string \<Rightarrow> string" where
  "required_error struct field =
     ''Key: '' @ [CHR 0x27] @ struct @ ''.'' @ field @ [CHR 0x27] @
     '' Error:Field validation for '' @ [CHR 0x27] @ field @ [CHR 0x27] @
     '' failed on the '' @ [CHR 0x27] @ ''required'' @ [CHR 0x27] @ '' tag''"

definition ShouldBindJSON_CreateDeviceRequest ::
    "string + CreateDeviceRequest \<Rightarrow> string + CreateDeviceRequest" where
  "ShouldBindJSON_CreateDeviceRequest b =
     (case b of
        Inl err \<Rightarrow> Inl err
      | Inr req \<Rightarrow>
          if req_Algorithm req = [] then Inl (required_error ''CreateDeviceRequest'' ''Algorithm'')
          else Inr req)"

definition ShouldBindJSON_SignTransactionRequest ::
    "string + SignTransactionRequest \<Rightarrow> string + SignTransactionRequest" where
  "ShouldBindJSON_SignTransactionRequest b =
     (case b of
        Inl err \<Rightarrow> Inl err
      | Inr req \<Rightarrow>
          if Data req = [] then Inl (required_error ''SignTransactionRequest'' ''Data'')
          else Inr req)"

definition device_response :: "Device \<Rightarrow> CreateDeviceResponse" where
  "device_response device =
     \<lparr>resp_ID = ID device, resp_Algorithm = Algorithm device, resp_Label = Label device,
      resp_SignatureCounter = SignatureCounter device\<rparr>"

definition generate_keys :: "environment \<Rightarrow> SignatureAlgorithm \<Rightarrow> response + key \<times> key" where
  "generate_keys env algorithm =
     (if algorithm = AlgorithmRSA then
        (case RSAGenerate env of
           Inl genErr \<Rightarrow> Inl (StatusInternalServerError,
                              ErrorResponse [''Failed to generate RSA key pair: '' @ genErr])
         | Inr (pub, priv) \<Rightarrow> Inr (RSAPublicKey pub, RSAPrivateKey priv))
      else
        (case ECCGenerate env of
           Inl genErr \<Rightarrow> Inl (StatusInternalServerError,
                              ErrorResponse [''Failed to generate ECDSA key pair: '' @ genErr])
         | Inr (pub, priv) \<Rightarrow> Inr (ECDSAPublicKey pub, ECDSAPrivateKey priv)))"

definition CreateDevice ::
    "environment \<Rightarrow> state \<Rightarrow> string + CreateDeviceRequest \<Rightarrow> state \<times> response" where
  "CreateDevice env s b =
     (case ShouldBindJSON_CreateDeviceRequest b of
        Inl err \<Rightarrow> (s, StatusBadRequest, ErrorResponse [''Invalid request body: '' @ err])
      | Inr req \<Rightarrow>
          (if req_Algorithm req \<noteq> AlgorithmRSA \<and> req_Algorithm req \<noteq> AlgorithmECDSA then
             (s, StatusBadRequest,
              ErrorResponse [''Algorithm must be either '' @ [CHR 0x27] @ ''RSA'' @ [CHR 0x27] @
                             '' or '' @ [CHR 0x27] @ ''ECDSA'' @ [CHR 0x27]])
           else
             (let deviceID = (if req_ID req = [] then uuid_New env else req_ID req)
              in (case generate_keys env (req_Algorithm req) of
                    Inl failure \<Rightarrow> (s, failure)
                  | Inr (publicKey, privateKey) \<Rightarrow>
                      (let (s1, device) =
                             new_object s (NewDevice deviceID (req_Algorithm req) (req_Label req)
                                             publicKey privateKey)
                       in (case Create s1 device of
                             Inl err \<Rightarrow>
                               (if err = ErrDeviceAlreadyExists then
                                  (s1, StatusConflict,
                                   ErrorResponse [''Device with this ID already exists''])
                                else
                                  (s1, StatusInternalServerError,
                                   ErrorResponse [''Failed to store device: '' @ Error err]))
                           | Inr s2 \<Rightarrow>
                               (s2, StatusCreated,
                                DeviceData (device_response (objects s2 ! device)))))))))"

definition ListDevices :: "environment \<Rightarrow> state \<Rightarrow> state \<times> response" where
  "ListDevices env s =
     (case List_devices s (range_order env) of
        Inl err \<Rightarrow>
          (s, StatusInternalServerError,
           ErrorResponse [''Failed to list devices: '' @ Error err])
      | Inr devs \<Rightarrow>
          (s, StatusOK,
           DeviceListData (map (\<lambda>device. device_response (objects s ! device)) devs)))"

definition GetDevice :: "state \<Rightarrow> string \<Rightarrow> state \<times> response" where
  "GetDevice s k =
     (case Get s k of
        Inl err \<Rightarrow>
          (if err = ErrDeviceNotFound then
             (s, StatusNotFound, ErrorResponse [''Device not found''])
           else
             (s, StatusInternalServerError,
              ErrorResponse [''Failed to get device: '' @ Error err]))
      | Inr device \<Rightarrow> (s, StatusOK, DeviceData (device_response (objects s ! device))))"

text \<open>
  The signer of a device: the branch on the algorithm, the getter of the private key
  and the constructor of the signer. \<open>Inl\<close> is the response of the failing getter.
\<close>

definition make_signer :: "environment \<Rightarrow> Device \<Rightarrow> response + (string \<Rightarrow> string + string)" where
  "make_signer env device =
     (if Algorithm device = AlgorithmRSA then
        (case GetRSAPrivateKey device of
           Inl keyErr \<Rightarrow> Inl (StatusInternalServerError,
                              ErrorResponse [''Failed to get RSA private key: '' @ keyErr])
         | Inr privateKey \<Rightarrow> Inr (RSASign env privateKey))
      else
        (case GetECDSAPrivateKey device of
           Inl keyErr \<Rightarrow> Inl (StatusInternalServerError,
                              ErrorResponse [''Failed to get ECDSA private key: '' @ keyErr])
         | Inr privateKey \<Rightarrow> Inr (ECDSASign env privateKey)))"

definition SignTransaction ::
    "environment \<Rightarrow> state \<Rightarrow> string \<Rightarrow> string + SignTransactionRequest \<Rightarrow> state \<times> response" where
  "SignTransaction env s k b =
     (case ShouldBindJSON_SignTransactionRequest b of
        Inl err \<Rightarrow> (s, StatusBadRequest, ErrorResponse [''Invalid request body: '' @ err])
      | Inr req \<Rightarrow>
          (case Get s k of
             Inl err \<Rightarrow>
               (if err = ErrDeviceNotFound then
                  (s, StatusNotFound, ErrorResponse [''Device not found''])
                else
                  (s, StatusInternalServerError,
                   ErrorResponse [''Failed to get device: '' @ Error err]))
           | Inr device \<Rightarrow>
               (let (d1, securedData) = GetSecuredDataToSign (objects s ! device) (Data req);
                    s1 = s\<lparr>objects := list_update (objects s) device d1\<rparr>
                in (case make_signer env (objects s1 ! device) of
                      Inl failure \<Rightarrow> (s1, failure)
                    | Inr signer \<Rightarrow>
                        (case signer securedData of
                           Inl err \<Rightarrow>
                             (s1, StatusInternalServerError,
                              ErrorResponse [''Failed to sign data: '' @ err])
                         | Inr signature \<Rightarrow>
                             (let signatureBase64 = EncodeToString signature;
                                  s2 = s1\<lparr>objects := list_update (objects s1) device
                                         (IncrementCounter (objects s1 ! device) signatureBase64)\<rparr>
                              in (case Update s2 device of
                                    Inl err \<Rightarrow>
                                      (s2, StatusInternalServerError,
                                       ErrorResponse [''Failed to update device: '' @ Error err])
                                  | Inr s3 \<Rightarrow>
                                      (s3, StatusOK,
                                       SignatureData \<lparr>Signature = signatureBase64,
                                                      SignedData = securedData\<rparr>))))))))"

text \<open>The health handler and the routes registered by \<^verbatim>\<open>Server.Run\<close>.\<close>

datatype request =
    HealthRequest
  | CreateDeviceRequest_of "string + CreateDeviceRequest"
  | ListDevicesRequest
  | GetDeviceRequest string
  | SignTransactionRequest_of string "string + SignTransactionRequest"

definition Health :: "state \<Rightarrow> state \<times> response" where
  "Health s = (s, StatusOK, HealthData \<lparr>Status = ''pass'', Version = ''v0''\<rparr>)"

fun Run :: "environment \<Rightarrow> state \<Rightarrow> request \<Rightarrow> state" where
  "Run env s HealthRequest = fst (Health s)"
| "Run env s (CreateDeviceRequest_of b) = fst (CreateDevice env s b)"
| "Run env s ListDevicesRequest = fst (ListDevices env s)"
| "Run env s (GetDeviceRequest k) = fst (GetDevice s k)"
| "Run env s (SignTransactionRequest_of k b) = fst (SignTransaction env s k b)"

section \<open>Runs of the service\<close>

text \<open>
  Every key of the repository points to an allocated device that carries this key as
  its id. \<^verbatim>\<open>Create\<close> and \<^verbatim>\<open>Update\<close> store a device under its own id, and no
  code assigns the id after \<^verbatim>\<open>NewDevice\<close>, so the states of the server satisfy it.
\<close>

definition well_formed :: "state \<Rightarrow> bool" where
  "well_formed s \<longleftrightarrow> (\<forall>k r. devices s k = Some r \<longrightarrow> r < length (objects s) \<and> ID (objects s ! r) = k)"

text \<open>Strictly sequential calls of \<^verbatim>\<open>SignTransaction\<close> for one device id.\<close>

fun SignTransactions ::
    "state \<Rightarrow> string \<Rightarrow> (environment \<times> (string + SignTransactionRequest)) list
       \<Rightarrow> state \<times> response list" where
  "SignTransactions s k [] = (s, [])"
| "SignTransactions s k (c # calls) =
     (let (s1, resp) = SignTransaction (fst c) s k (snd c);
          (s2, resps) = SignTransactions s1 k calls
      in (s2, resp # resps))"

definition succeeded :: "response \<Rightarrow> bool" where
  "succeeded resp \<longleftrightarrow> fst resp = StatusOK"

fun signed_data :: "response \<Rightarrow> string" where
  "signed_data (_, SignatureData r) = SignedData r"
| "signed_data _ = []"

fun signature_of :: "response \<Rightarrow> string" where
  "signature_of (_, SignatureData r) = Signature r"
| "signature_of _ = []"

text \<open>
  The segments of a secured string: the counter is what precedes the first underscore,
  the predecessor is what follows the last one.
\<close>

definition embedded_counter :: "string \<Rightarrow> string" where
  "embedded_counter x = takeWhile (\<lambda>c. c \<noteq> CHR ''_'') x"

text \<open>Reading a decimal number back, to say which counter a signed string carries.\<close>

definition parse_nat :: "string \<Rightarrow> nat" where
  "parse_nat x = foldl (\<lambda>a c. 10 * a + (of_char c - 48)) 0 x"

definition parse_int :: "string \<Rightarrow> int" where
  "parse_int x =
     (case x of
        [] \<Rightarrow> 0
      | c # cs \<Rightarrow> if c = CHR ''-'' then - int (parse_nat cs) else int (parse_nat x))"

definition trailing_segment :: "string \<Rightarrow> string" where
  "trailing_segment x = rev (takeWhile (\<lambda>c. c \<noteq> CHR ''_'') (rev x))"

text \<open>
  The signers of \<^verbatim>\<open>crypto\<close> return an ASN.1 structure (ECDSA) or a string as long as
  the modulus (RSA-PSS): a signature returned without an error is not empty.
\<close>

definition nonempty_signatures :: "environment \<Rightarrow> bool" where
  "nonempty_signatures env \<longleftrightarrow>
     (\<forall>key msg. RSASign env key msg \<noteq> Inr [] \<and> ECDSASign env key msg \<noteq> Inr [])"

text \<open>The same state with other key material in every device.\<close>

definition rekey :: "(Device \<Rightarrow> key \<times> key) \<Rightarrow> state \<Rightarrow> state" where
  "rekey f s =
     s\<lparr>objects := map (\<lambda>d. d\<lparr>PublicKey := fst (f d), PrivateKey := snd (f d)\<rparr>) (objects s)\<rparr>"

subsection \<open>Concurrent calls of \<^verbatim>\<open>SignTransaction\<close>\<close>

text \<open>
  A call of the handler touches shared memory in four places, each under a lock for the
  length of one method: \<^verbatim>\<open>repository.Get\<close>, \<^verbatim>\<open>device.GetSecuredDataToSign\<close>,
  \<^verbatim>\<open>device.IncrementCounter\<close> and \<^verbatim>\<open>repository.Update\<close>. Between them the call works
  on its own variables (and on the algorithm and the key of the device, which nobody
  writes). A call in progress is at one of these points, with its local variables.
\<close>

datatype call =
    Start "string + SignTransactionRequest"
  | GotDevice ref string
  | GotSecuredData ref string
  | GotSignature ref string string
  | Incremented ref string string
  | Returned response

fun step :: "environment \<Rightarrow> string \<Rightarrow> state \<Rightarrow> call \<Rightarrow> state \<times> call" where
  "step env k s (Start b) =
     (case ShouldBindJSON_SignTransactionRequest b of
        Inl err \<Rightarrow>
          (s, Returned (StatusBadRequest, ErrorResponse [''Invalid request body: '' @ err]))
      | Inr req \<Rightarrow>
          (case Get s k of
             Inl err \<Rightarrow>
               (if err = ErrDeviceNotFound then
                  (s, Returned (StatusNotFound, ErrorResponse [''Device not found'']))
                else
                  (s, Returned (StatusInternalServerError,
                                ErrorResponse [''Failed to get device: '' @ Error err])))
           | Inr device \<Rightarrow> (s, GotDevice device (Data req))))"
| "step env k s (GotDevice device dataToBeSigned) =
     (let (d1, securedData) = GetSecuredDataToSign (objects s ! device) dataToBeSigned
      in (s\<lparr>objects := list_update (objects s) device d1\<rparr>, GotSecuredData device securedData))"
| "step env k s (GotSecuredData device securedData) =
     (case make_signer env (objects s ! device) of
        Inl failure \<Rightarrow> (s, Returned failure)
      | Inr signer \<Rightarrow>
          (case signer securedData of
             Inl err \<Rightarrow>
               (s, Returned (StatusInternalServerError,
                             ErrorResponse [''Failed to sign data: '' @ err]))
           | Inr signature \<Rightarrow>
               (s, GotSignature device securedData (EncodeToString signature))))"
| "step env k s (GotSignature device securedData signatureBase64) =
     (s\<lparr>objects := list_update (objects s) device
                     (IncrementCounter (objects s ! device) signatureBase64)\<rparr>,
      Incremented device securedData signatureBase64)"
| "step env k s (Incremented device securedData signatureBase64) =
     (case Update s device of
        Inl err \<Rightarrow>
          (s, Returned (StatusInternalServerError,
                        ErrorResponse [''Failed to update device: '' @ Error err]))
      | Inr s3 \<Rightarrow>
          (s3, Returned (StatusOK,
                         SignatureData \<lparr>Signature = signatureBase64, SignedData = securedData\<rparr>)))"
| "step env k s (Returned resp) = (s, Returned resp)"

text \<open>
  Concurrent calls: each has its environment, the id of its request and its progress.
  A schedule names, one after the other, the call that makes its next step.
\<close>

type_synonym calls = "(environment \<times> string \<times> call) list"

fun run :: "nat list \<Rightarrow> state \<times> calls \<Rightarrow> state \<times> calls" where
  "run [] c = c"
| "run (i # schedule) (s, cs) =
     (if i < length cs then
        (case cs ! i of
           (env, k, c) \<Rightarrow>
             (case step env k s c of
                (s', c') \<Rightarrow> run schedule (s', list_update cs i (env, k, c'))))
      else run schedule (s, cs))"

fun response_of :: "environment \<times> string \<times> call \<Rightarrow> response option" where
  "response_of (_, _, Returned resp) = Some resp"
| "response_of _ = None"

text \<open>
  A call in progress has incremented the counter of the device, and not yet or
  successfully returned, or it has not.
\<close>

fun increments :: "call \<Rightarrow> nat" where
  "increments (Incremented device securedData signatureBase64) = 1"
| "increments (Returned resp) = (if succeeded resp then 1 else 0)"
| "increments _ = 0"

fun device_of :: "call \<Rightarrow> ref option" where
  "device_of (GotDevice device dataToBeSigned) = Some device"
| "device_of (GotSecuredData device securedData) = Some device"
| "device_of (GotSignature device securedData signatureBase64) = Some device"
| "device_of (Incremented device securedData signatureBase64) = Some device"
| "device_of _ = None"

subsection \<open>A server with one device\<close>

definition example_env :: "string \<Rightarrow> environment" where
  "example_env signature =
     \<lparr>uuid_New = ''6ba7b810-9dad-11d1-80b4-00c04fd430c8'',
      RSAGenerate = Inr (1, 2), ECCGenerate = Inr (3, 4),
      RSASign = (\<lambda>key msg. Inr signature), ECDSASign = (\<lambda>key msg. Inr signature),
      range_order = [''X'']\<rparr>"

definition failing_env :: environment where
  "failing_env =
     \<lparr>uuid_New = ''6ba7b810-9dad-11d1-80b4-00c04fd430c8'',
      RSAGenerate = Inr (1, 2), ECCGenerate = Inr (3, 4),
      RSASign = (\<lambda>key msg. Inl ''EOF''), ECDSASign = (\<lambda>key msg. Inl ''EOF''),
      range_order = [''X'']\<rparr>"

definition device_X :: Device where
  "device_X = NewDevice ''X'' AlgorithmRSA ''till 1'' (RSAPublicKey 1) (RSAPrivateKey 2)"

definition state_X :: state where
  "state_X = \<lparr>objects = [device_X], devices = [''X'' \<mapsto> 0]\<rparr>"

definition hello :: "string + SignTransactionRequest" where
  "hello = Inr \<lparr>Data = ''hello''\<rparr>"

section \<open>Facts about the library functions\<close>

lemma digit_char_in: "digit_char n \<in> set ''0123456789''"
  unfolding digit_char_def by (rule nth_mem) simp

lemma digit_char_not_underscore: "digit_char n \<noteq> CHR ''_''"
  using digit_char_in [of n] by auto

lemma decimal_no_underscore: "CHR ''_'' \<notin> set (decimal n)"
proof (induction n rule: decimal.induct)
  case (1 n)
  show ?case
  proof (cases "n < 10")
    case True
    then show ?thesis
      using digit_char_not_underscore [of n] by (simp add: decimal.simps)
  next
    case False
    with "1" have "CHR ''_'' \<notin> set (decimal (n div 10))" by simp
    with False show ?thesis
      using digit_char_not_underscore [of "n mod 10"]
      by (subst decimal.simps) simp
  qed
qed

lemma Sprintf_d_no_underscore: "CHR ''_'' \<notin> set (Sprintf_d i)"
  by (simp add: Sprintf_d_def decimal_no_underscore)

text \<open>The rendering is read back by \<open>parse_int\<close>.\<close>

lemma digit_char_value:
  assumes "n < 10"
  shows "of_char (digit_char n) = 48 + n"
proof -
  from assms have "n \<in> {0, 1, 2, 3, 4, 5, 6, 7, 8, 9}" by auto
  then show ?thesis
    by (auto simp: digit_char_def)
qed

lemma parse_nat_snoc: "parse_nat (x @ [c]) = 10 * parse_nat x + (of_char c - 48)"
  by (simp add: parse_nat_def)

lemma parse_nat_decimal: "parse_nat (decimal n) = n"
proof (induction n rule: decimal.induct)
  case (1 n)
  show ?case
  proof (cases "n < 10")
    case True
    then show ?thesis
      by (simp add: decimal.simps [of n] parse_nat_def digit_char_value)
  next
    case False
    with "1" have "parse_nat (decimal (n div 10)) = n div 10" by simp
    with False show ?thesis
      by (simp add: decimal.simps [of n] parse_nat_snoc digit_char_value)
  qed
qed

lemma decimal_not_Nil: "decimal n \<noteq> []"
  by (subst decimal.simps) simp

lemma hd_decimal_digit: "hd (decimal n) \<in> set ''0123456789''"
proof (induction n rule: decimal.induct)
  case (1 n)
  show ?case
  proof (cases "n < 10")
    case True
    then show ?thesis
      using digit_char_in [of n] by (simp add: decimal.simps [of n])
  next
    case False
    with "1" have "hd (decimal (n div 10)) \<in> set ''0123456789''" by simp
    with False show ?thesis
      by (simp add: decimal.simps [of n] decimal_not_Nil)
  qed
qed

lemma parse_int_Sprintf_d: "parse_int (Sprintf_d i) = i"
proof (cases "i < 0")
  case True
  then show ?thesis
    by (simp add: Sprintf_d_def parse_int_def parse_nat_decimal)
next
  case False
  obtain c cs where dec: "decimal (nat i) = c # cs"
    using decimal_not_Nil [of "nat i"] by (cases "decimal (nat i)") auto
  with hd_decimal_digit [of "nat i"] have "c \<noteq> CHR ''-''" by auto
  with False dec show ?thesis
    using parse_nat_decimal [of "nat i"] by (simp add: Sprintf_d_def parse_int_def)
qed

lemma b64_in: "b64 n \<in> set encodeStd"
  unfolding b64_def by (rule nth_mem) (simp add: encodeStd_def)

lemma b64_not_underscore: "CHR ''_'' \<noteq> b64 n"
  using b64_in [of n] by (auto simp: encodeStd_def)

lemma encode_bytes_no_underscore: "CHR ''_'' \<notin> set (encode_bytes bs)"
  by (induction bs rule: encode_bytes.induct) (simp_all add: b64_not_underscore)

lemma EncodeToString_no_underscore: "CHR ''_'' \<notin> set (EncodeToString x)"
  by (simp add: EncodeToString_def encode_bytes_no_underscore)

lemma encode_bytes_Nil_iff: "encode_bytes bs = [] \<longleftrightarrow> bs = []"
  by (cases bs rule: encode_bytes.cases) simp_all

lemma EncodeToString_Nil_iff: "EncodeToString x = [] \<longleftrightarrow> x = []"
  by (simp add: EncodeToString_def encode_bytes_Nil_iff)

lemma takeWhile_until: "x \<notin> set xs \<Longrightarrow> takeWhile (\<lambda>c. c \<noteq> x) (xs @ x # ys) = xs"
  by (induction xs) auto

lemma embedded_counter_append:
  "CHR ''_'' \<notin> set pre \<Longrightarrow> embedded_counter (pre @ ''_'' @ rest) = pre"
  by (simp add: embedded_counter_def takeWhile_until)

lemma trailing_segment_append:
  "CHR ''_'' \<notin> set seg \<Longrightarrow> trailing_segment (pre @ ''_'' @ seg) = seg"
  by (simp add: trailing_segment_def takeWhile_until)

section \<open>The handler of a signing request, case by case\<close>

lemmas status_defs = StatusOK_def StatusCreated_def StatusBadRequest_def StatusNotFound_def
  StatusConflict_def StatusInternalServerError_def

lemma GetSecuredDataToSign_fst [simp]: "fst (GetSecuredDataToSign d x) = d"
  by (simp add: GetSecuredDataToSign_def Let_def)

lemma ID_IncrementCounter [simp]: "ID (IncrementCounter d x) = ID d"
  by (simp add: IncrementCounter_def)

lemma ID_nth_list_update:
  "ID (list_update ds r (IncrementCounter (ds ! r) x) ! r') = ID (ds ! r')"
  by (cases "r' = r"; cases "r < length ds") (simp_all add: list_update_beyond)

lemma ShouldBindJSON_SignTransactionRequest_Inr:
  "ShouldBindJSON_SignTransactionRequest b = Inr req \<longleftrightarrow> b = Inr req \<and> Data req \<noteq> []"
  by (auto simp: ShouldBindJSON_SignTransactionRequest_def split: sum.splits)

lemma Get_Inr: "Get s k = Inr r \<longleftrightarrow> devices s k = Some r"
  by (simp add: Get_def split: option.splits)



lemma wf_lookup: "well_formed s \<Longrightarrow> devices s k = Some r \<Longrightarrow> r < length (objects s) \<and> ID (objects s ! r) = k"
  by (simp add: well_formed_def)

lemma make_signer_nonempty:
  "nonempty_signatures env \<Longrightarrow> make_signer env d = Inr signer \<Longrightarrow> signer msg \<noteq> Inr []"
  by (auto simp: nonempty_signatures_def make_signer_def split: if_splits sum.splits)

text \<open>The handler once the body is bound and the device found.\<close>

lemma SignTransaction_found:
  assumes "b = Inr req" and "Data req \<noteq> []" and "devices s k = Some r"
  shows "SignTransaction env s k b =
     (case make_signer env (objects s ! r) of
        Inl failure \<Rightarrow> (s, failure)
      | Inr signer \<Rightarrow>
          (case signer (snd (GetSecuredDataToSign (objects s ! r) (Data req))) of
             Inl err \<Rightarrow> (s, StatusInternalServerError, ErrorResponse [''Failed to sign data: '' @ err])
           | Inr signature \<Rightarrow>
               (case Update (s\<lparr>objects := list_update (objects s) r
                        (IncrementCounter (objects s ! r) (EncodeToString signature))\<rparr>) r of
                  Inl err \<Rightarrow>
                    (s\<lparr>objects := list_update (objects s) r
                        (IncrementCounter (objects s ! r) (EncodeToString signature))\<rparr>,
                     StatusInternalServerError,
                     ErrorResponse [''Failed to update device: '' @ Error err])
                | Inr s3 \<Rightarrow>
                    (s3, StatusOK,
                     SignatureData \<lparr>Signature = EncodeToString signature,
                       SignedData = snd (GetSecuredDataToSign (objects s ! r) (Data req))\<rparr>))))"
proof -
  have bind: "ShouldBindJSON_SignTransactionRequest b = Inr req"
    using assms(1,2) by (simp add: ShouldBindJSON_SignTransactionRequest_Inr)
  have get: "Get s k = Inr r"
    using assms(3) by (simp add: Get_Inr)
  have same: "s\<lparr>objects := list_update (objects s) r (objects s ! r)\<rparr> = s"
    by simp
  show ?thesis
    unfolding SignTransaction_def bind get
    by (simp add: Let_def case_prod_beta same cong: sum.case_cong)
qed

lemma Update_commit:
  assumes "well_formed s" and "devices s k = Some r"
  shows "Update (s\<lparr>objects := list_update (objects s) r (IncrementCounter (objects s ! r) x)\<rparr>) r
       = Inr (s\<lparr>objects := list_update (objects s) r (IncrementCounter (objects s ! r) x)\<rparr>)"
proof -
  from assms have "ID (objects s ! r) = k"
    using wf_lookup by blast
  with assms(2) show ?thesis
    by (simp add: Update_def ID_nth_list_update fun_upd_idem)
qed

text \<open>On a server state, the handler either commits a signature or changes nothing.\<close>

lemma SignTransaction_cases:
  assumes "well_formed s" and "SignTransaction env s k b = (s', resp)"
  obtains (failed) "\<not> succeeded resp" "s' = s"
  | (committed) req r signature where
      "b = Inr req" "Data req \<noteq> []" "devices s k = Some r"
      "resp = (StatusOK, SignatureData \<lparr>Signature = EncodeToString signature,
                 SignedData = snd (GetSecuredDataToSign (objects s ! r) (Data req))\<rparr>)"
      "s' = s\<lparr>objects := list_update (objects s) r
                             (IncrementCounter (objects s ! r) (EncodeToString signature))\<rparr>"
      "nonempty_signatures env \<longrightarrow> signature \<noteq> []"
proof (cases "ShouldBindJSON_SignTransactionRequest b")
  case (Inl err)
  with assms(2) have "\<not> succeeded resp" "s' = s"
    by (auto simp: SignTransaction_def succeeded_def status_defs)
  then show ?thesis by (rule failed)
next
  case (Inr req)
  then have b: "b = Inr req" "Data req \<noteq> []"
    by (simp_all add: ShouldBindJSON_SignTransactionRequest_Inr)
  show ?thesis
  proof (cases "devices s k")
    case None
    with Inr assms(2) have "\<not> succeeded resp" "s' = s"
      by (auto simp: SignTransaction_def Get_def succeeded_def status_defs)
    then show ?thesis by (rule failed)
  next
    case (Some r)
    note found = SignTransaction_found [OF b Some, of env]
    show ?thesis
    proof (cases "make_signer env (objects s ! r)")
      case (Inl failure)
      then have "fst failure = StatusInternalServerError"
        by (auto simp: make_signer_def split: if_splits sum.splits)
      with Inl found assms(2) have "\<not> succeeded resp" "s' = s"
        by (auto simp: succeeded_def status_defs)
      then show ?thesis by (rule failed)
    next
      case signer: (Inr signer)
      show ?thesis
      proof (cases "signer (snd (GetSecuredDataToSign (objects s ! r) (Data req)))")
        case (Inl err)
        with signer found assms(2) have "\<not> succeeded resp" "s' = s"
          by (auto simp: succeeded_def status_defs)
        then show ?thesis by (rule failed)
      next
        case (Inr signature)
        have "nonempty_signatures env \<longrightarrow> signature \<noteq> []"
          using make_signer_nonempty [OF _ signer] Inr by auto
        moreover from signer Inr found assms(2) Update_commit [OF assms(1) Some]
        have "resp = (StatusOK, SignatureData \<lparr>Signature = EncodeToString signature,
                 SignedData = snd (GetSecuredDataToSign (objects s ! r) (Data req))\<rparr>)"
          and "s' = s\<lparr>objects := list_update (objects s) r
                             (IncrementCounter (objects s ! r) (EncodeToString signature))\<rparr>"
          by simp_all
        ultimately show ?thesis
          using b Some by (intro committed) 
      qed
    qed
  qed
qed

lemma wf_commit:
  assumes "well_formed s"
  shows "well_formed (s\<lparr>objects := list_update (objects s) r (IncrementCounter (objects s ! r) x)\<rparr>)"
  using assms by (simp add: well_formed_def ID_nth_list_update)

lemma wf_SignTransaction:
  assumes "well_formed s" and "SignTransaction env s k b = (s', resp)"
  shows "well_formed s'"
proof (rule SignTransaction_cases [OF assms])
  assume "s' = s"
  with assms(1) show ?thesis by simp
next
  fix r signature
  assume "s' = s\<lparr>objects := list_update (objects s) r
                             (IncrementCounter (objects s ! r) (EncodeToString signature))\<rparr>"
  with assms(1) show ?thesis by (simp add: wf_commit)
qed

section \<open>The example server\<close>

lemmas example_defs = example_env_def failing_env_def device_X_def state_X_def hello_def
  NewDevice_def AlgorithmRSA_def AlgorithmECDSA_def

lemmas render_defs = GetSecuredDataToSign_def EncodeToString_def Sprintf_d_def decimal.simps
  digit_char_def b64_def encodeStd_def

lemma well_formed_state_X: "well_formed state_X"
  by (simp add: well_formed_def state_X_def device_X_def NewDevice_def)

lemmas handler_defs = SignTransaction_def ShouldBindJSON_SignTransactionRequest_def Get_def
  make_signer_def GetRSAPrivateKey_def GetECDSAPrivateKey_def Update_def IncrementCounter_def
  Let_def

lemma SignTransaction_state_X:
  "SignTransaction (example_env sig) state_X ''X'' hello =
     (state_X\<lparr>objects := [IncrementCounter device_X (EncodeToString sig)]\<rparr>,
      StatusOK, SignatureData \<lparr>Signature = EncodeToString sig, SignedData = ''0_hello_WA==''\<rparr>)"
  by (simp add: handler_defs example_defs GetSecuredDataToSign_def Sprintf_d_def decimal.simps
      digit_char_def)
    (simp add: EncodeToString_def b64_def encodeStd_def)

lemma SignTransaction_success:
  assumes "SignTransaction env s k b = (s', StatusOK, bd)"
  obtains req r where "b = Inr req" "Data req \<noteq> []" "devices s k = Some r"
    "signed_data (StatusOK, bd) = snd (GetSecuredDataToSign (objects s ! r) (Data req))"
proof (cases "ShouldBindJSON_SignTransactionRequest b")
  case (Inl err)
  with assms show ?thesis
    by (simp add: SignTransaction_def status_defs)
next
  case (Inr req)
  then have b: "b = Inr req" "Data req \<noteq> []"
    by (simp_all add: ShouldBindJSON_SignTransactionRequest_Inr)
  show ?thesis
  proof (cases "devices s k")
    case None
    with Inr assms show ?thesis
      by (simp add: SignTransaction_def Get_def status_defs)
  next
    case (Some r)
    note found = SignTransaction_found [OF b Some, of env]
    have "signed_data (StatusOK, bd) = snd (GetSecuredDataToSign (objects s ! r) (Data req))"
    proof (cases "make_signer env (objects s ! r)")
      case (Inl failure)
      then have "fst failure = StatusInternalServerError"
        by (auto simp: make_signer_def split: if_splits sum.splits)
      with Inl found assms show ?thesis
        by (auto simp: status_defs)
    next
      case signer: (Inr signer)
      show ?thesis
      proof (cases "signer (snd (GetSecuredDataToSign (objects s ! r) (Data req)))")
        case (Inl err)
        with signer found assms show ?thesis
          by (simp add: status_defs)
      next
        case (Inr signature)
        with signer found assms show ?thesis
          by (cases "Update (s\<lparr>objects := list_update (objects s) r
                (IncrementCounter (objects s ! r) (EncodeToString signature))\<rparr>) r")
            (auto simp: status_defs)
      qed
    qed
    with b Some show ?thesis by (rule that)
  qed
qed

section \<open>The signed string\<close>

text \<open>
  C2. A successful sign returns as signed data the decimal counter, an underscore, the
  input, an underscore and the last signature, or the base64 of the device id when
  there is no last signature. On a new device with id X, signing hello returns
  0_hello_ followed by the base64 of X.
\<close>

theorem signed_data_format:
  "(SignTransaction env s k b = (s', StatusOK, bd) \<longrightarrow>
      (\<exists>req r. b = Inr req \<and> devices s k = Some r \<and>
         signed_data (StatusOK, bd) =
           Sprintf_d (sint (SignatureCounter (objects s ! r))) @ ''_'' @ Data req @ ''_'' @
           (if LastSignature (objects s ! r) = [] then EncodeToString (ID (objects s ! r))
            else LastSignature (objects s ! r)) \<and>
         parse_int (embedded_counter (signed_data (StatusOK, bd))) =
           sint (SignatureCounter (objects s ! r)))) \<and>
   snd (GetSecuredDataToSign (NewDevice ''X'' algorithm label publicKey privateKey) ''hello'')
     = ''0_hello_'' @ EncodeToString ''X''"
proof (intro conjI impI)
  assume "SignTransaction env s k b = (s', StatusOK, bd)"
  then show "\<exists>req r. b = Inr req \<and> devices s k = Some r \<and>
         signed_data (StatusOK, bd) =
           Sprintf_d (sint (SignatureCounter (objects s ! r))) @ ''_'' @ Data req @ ''_'' @
           (if LastSignature (objects s ! r) = [] then EncodeToString (ID (objects s ! r))
            else LastSignature (objects s ! r)) \<and>
         parse_int (embedded_counter (signed_data (StatusOK, bd))) =
           sint (SignatureCounter (objects s ! r))"
  proof (rule SignTransaction_success)
    fix req :: SignTransactionRequest and r
    assume h: "b = Inr req" "devices s k = Some r"
      "signed_data (StatusOK, bd) = snd (GetSecuredDataToSign (objects s ! r) (Data req))"
    then have data: "signed_data (StatusOK, bd) =
           Sprintf_d (sint (SignatureCounter (objects s ! r))) @ ''_'' @ Data req @ ''_'' @
           (if LastSignature (objects s ! r) = [] then EncodeToString (ID (objects s ! r))
            else LastSignature (objects s ! r))"
      by (simp add: GetSecuredDataToSign_def Let_def)
    have "embedded_counter (signed_data (StatusOK, bd)) =
            Sprintf_d (sint (SignatureCounter (objects s ! r)))"
      unfolding data by (rule embedded_counter_append [OF Sprintf_d_no_underscore])
    then have "parse_int (embedded_counter (signed_data (StatusOK, bd))) =
           sint (SignatureCounter (objects s ! r))"
      by (simp add: parse_int_Sprintf_d)
    with h(1,2) data show ?thesis by blast
  qed
next
  show "snd (GetSecuredDataToSign (NewDevice ''X'' algorithm label publicKey privateKey) ''hello'')
     = ''0_hello_'' @ EncodeToString ''X''"
    by (simp add: GetSecuredDataToSign_def NewDevice_def Sprintf_d_def decimal.simps digit_char_def)
qed

theorem signed_data_format_witness:
  "SignTransaction (example_env ''s1'') state_X ''X'' hello =
     (state_X\<lparr>objects := [IncrementCounter device_X (EncodeToString ''s1'')]\<rparr>, StatusOK,
      SignatureData \<lparr>Signature = EncodeToString ''s1'', SignedData = ''0_hello_WA==''\<rparr>) \<and>
   signed_data (StatusOK,
      SignatureData \<lparr>Signature = EncodeToString ''s1'', SignedData = ''0_hello_WA==''\<rparr>) =
     Sprintf_d (sint (SignatureCounter device_X)) @ ''_'' @ ''hello'' @ ''_'' @ EncodeToString (ID device_X)"
  using signed_data_format [of "example_env ''s1''" state_X "''X''" hello
      "state_X\<lparr>objects := [IncrementCounter device_X (EncodeToString ''s1'')]\<rparr>"
      "SignatureData \<lparr>Signature = EncodeToString ''s1'', SignedData = ''0_hello_WA==''\<rparr>"]
    SignTransaction_state_X [of "''s1''"]
  by (simp add: example_defs render_defs)

section \<open>A failing signer\<close>

text \<open>
  C5. When the signer returns an error, the handler answers with status 500 and the
  message of a failed signature, and the server state, with the counter and the last
  signature of the device, is what it was: a retry that succeeds signs the secured
  string of the unchanged device.
\<close>

theorem signing_failure_changes_nothing:
  assumes "b = Inr req" and "Data req \<noteq> []" and "devices s k = Some r"
    and "make_signer env (objects s ! r) = Inr signer"
    and "signer (snd (GetSecuredDataToSign (objects s ! r) (Data req))) = Inl err"
  shows "SignTransaction env s k b =
           (s, StatusInternalServerError, ErrorResponse [''Failed to sign data: '' @ err]) \<and>
         (SignTransaction env' (fst (SignTransaction env s k b)) k b = (s', StatusOK, bd) \<longrightarrow>
            signed_data (StatusOK, bd) = snd (GetSecuredDataToSign (objects s ! r) (Data req)))"
proof -
  have failed: "SignTransaction env s k b =
           (s, StatusInternalServerError, ErrorResponse [''Failed to sign data: '' @ err])"
    by (simp add: SignTransaction_found [OF assms(1,2,3)] assms(4,5))
  have "signed_data (StatusOK, bd) = snd (GetSecuredDataToSign (objects s ! r) (Data req))"
    if "SignTransaction env' s k b = (s', StatusOK, bd)"
    using that
  proof (rule SignTransaction_success)
    fix req' :: SignTransactionRequest and r'
    assume "b = Inr req'" "devices s k = Some r'"
      "signed_data (StatusOK, bd) = snd (GetSecuredDataToSign (objects s ! r') (Data req'))"
    with assms(1,3) show ?thesis by simp
  qed
  with failed show ?thesis by simp
qed

theorem signing_failure_changes_nothing_witness:
  "hello = Inr \<lparr>Data = ''hello''\<rparr> \<and> Data \<lparr>Data = ''hello''\<rparr> \<noteq> [] \<and>
   devices state_X ''X'' = Some 0 \<and>
   make_signer failing_env (objects state_X ! 0) = Inr (\<lambda>msg. Inl ''EOF'') \<and>
   SignTransaction failing_env state_X ''X'' hello =
     (state_X, StatusInternalServerError, ErrorResponse [''Failed to sign data: EOF'']) \<and>
   SignatureCounter (objects (fst (SignTransaction failing_env state_X ''X'' hello)) ! 0) = 0 \<and>
   LastSignature (objects (fst (SignTransaction failing_env state_X ''X'' hello)) ! 0) = []"
proof -
  have h: "hello = Inr \<lparr>Data = ''hello''\<rparr>" "Data \<lparr>Data = ''hello''\<rparr> \<noteq> []"
    "devices state_X ''X'' = Some 0"
    "make_signer failing_env (objects state_X ! 0) = Inr (\<lambda>msg. Inl ''EOF'')"
    "(\<lambda>msg. Inl ''EOF'') (snd (GetSecuredDataToSign (objects state_X ! 0) (Data \<lparr>Data = ''hello''\<rparr>)))
       = (Inl ''EOF'' :: string + string)"
    by (simp_all add: example_defs make_signer_def GetRSAPrivateKey_def)
  from signing_failure_changes_nothing [OF h] h show ?thesis
    by (simp add: state_X_def device_X_def NewDevice_def)
qed

section \<open>The errors of the repository and of the handlers\<close>

lemma Create_Inl: "Create s r = Inl e \<longleftrightarrow> e = ErrDeviceAlreadyExists \<and> devices s (ID (objects s ! r)) \<noteq> None"
  by (auto simp: Create_def Let_def)

lemma Create_Inr:
  "Create s r = Inr s' \<longleftrightarrow>
     devices s (ID (objects s ! r)) = None \<and> s' = s\<lparr>devices := (devices s)(ID (objects s ! r) \<mapsto> r)\<rparr>"
  by (auto simp: Create_def Let_def)

lemma Get_Inl: "Get s k = Inl e \<longleftrightarrow> e = ErrDeviceNotFound \<and> devices s k = None"
  by (auto simp: Get_def split: option.splits)

lemma Update_Inl: "Update s r = Inl e \<longleftrightarrow> e = ErrDeviceNotFound \<and> devices s (ID (objects s ! r)) = None"
  by (auto simp: Update_def Let_def)

lemma Update_Inr:
  "Update s r = Inr s' \<longleftrightarrow>
     devices s (ID (objects s ! r)) \<noteq> None \<and> s' = s\<lparr>devices := (devices s)(ID (objects s ! r) \<mapsto> r)\<rparr>"
  by (auto simp: Update_def Let_def)

text \<open>The handler of a creation request once the body is bound and the keys generated.\<close>

lemma CreateDevice_generated:
  assumes "b = Inr req" and "req_Algorithm req = AlgorithmRSA \<or> req_Algorithm req = AlgorithmECDSA"
    and "generate_keys env (req_Algorithm req) = Inr (publicKey, privateKey)"
  shows "CreateDevice env s b =
     (let deviceID = (if req_ID req = [] then uuid_New env else req_ID req);
          d = NewDevice deviceID (req_Algorithm req) (req_Label req) publicKey privateKey;
          s1 = s\<lparr>objects := objects s @ [d]\<rparr>
      in if devices s deviceID \<noteq> None then
           (s1, StatusConflict, ErrorResponse [''Device with this ID already exists''])
         else
           (s1\<lparr>devices := (devices s)(deviceID \<mapsto> length (objects s))\<rparr>, StatusCreated,
            DeviceData (device_response d)))"
proof -
  have bind: "ShouldBindJSON_CreateDeviceRequest b = Inr req"
    using assms(1,2)
    by (auto simp: ShouldBindJSON_CreateDeviceRequest_def AlgorithmRSA_def AlgorithmECDSA_def)
  show ?thesis
    unfolding CreateDevice_def bind
    using assms(2,3)
    by (auto simp: Let_def new_object_def Create_def NewDevice_def)
qed

text \<open>
  C7. \<^verbatim>\<open>Create\<close> fails, with the error of an existing device, exactly when the id of
  the device is a key of the repository, and stores the device otherwise; \<^verbatim>\<open>Get\<close> and
  \<^verbatim>\<open>Update\<close> fail, with the error of a missing device, exactly when the id is no
  key. A creation request with an id that is stored is answered with status 409; a
  request for a device or for a signature with an id that is not stored is answered
  with status 404.
\<close>

theorem store_errors:
  "(Create s r = Inl e \<longleftrightarrow> e = ErrDeviceAlreadyExists \<and> devices s (ID (objects s ! r)) \<noteq> None) \<and>
   (devices s (ID (objects s ! r)) = None \<longrightarrow>
      Create s r = Inr (s\<lparr>devices := (devices s)(ID (objects s ! r) \<mapsto> r)\<rparr>)) \<and>
   (Get s k = Inl e \<longleftrightarrow> e = ErrDeviceNotFound \<and> devices s k = None) \<and>
   (Update s r = Inl e \<longleftrightarrow> e = ErrDeviceNotFound \<and> devices s (ID (objects s ! r)) = None) \<and>
   (b = Inr req \<and> req_ID req \<noteq> [] \<and> devices s (req_ID req) \<noteq> None \<and>
    (req_Algorithm req = AlgorithmRSA \<or> req_Algorithm req = AlgorithmECDSA) \<and>
    generate_keys env (req_Algorithm req) = Inr keys \<longrightarrow>
      snd (CreateDevice env s b) =
        (StatusConflict, ErrorResponse [''Device with this ID already exists'']) \<and>
      devices (fst (CreateDevice env s b)) = devices s) \<and>
   (devices s k = None \<longrightarrow>
      GetDevice s k = (s, StatusNotFound, ErrorResponse [''Device not found''])) \<and>
   (devices s k = None \<and> sb = Inr sreq \<and> Data sreq \<noteq> [] \<longrightarrow>
      SignTransaction env s k sb = (s, StatusNotFound, ErrorResponse [''Device not found'']))"
proof (intro conjI impI)
  show "Create s r = Inl e \<longleftrightarrow> e = ErrDeviceAlreadyExists \<and> devices s (ID (objects s ! r)) \<noteq> None"
    by (rule Create_Inl)
  show "Create s r = Inr (s\<lparr>devices := (devices s)(ID (objects s ! r) \<mapsto> r)\<rparr>)"
    if "devices s (ID (objects s ! r)) = None"
    using that by (simp add: Create_Inr)
  show "Get s k = Inl e \<longleftrightarrow> e = ErrDeviceNotFound \<and> devices s k = None"
    by (rule Get_Inl)
  show "Update s r = Inl e \<longleftrightarrow> e = ErrDeviceNotFound \<and> devices s (ID (objects s ! r)) = None"
    by (rule Update_Inl)
  show "GetDevice s k = (s, StatusNotFound, ErrorResponse [''Device not found''])"
    if "devices s k = None"
    using that by (simp add: GetDevice_def Get_def)
  show "SignTransaction env s k sb = (s, StatusNotFound, ErrorResponse [''Device not found''])"
    if "devices s k = None \<and> sb = Inr sreq \<and> Data sreq \<noteq> []"
    using that by (simp add: SignTransaction_def ShouldBindJSON_SignTransactionRequest_def Get_def)
next
  assume h: "b = Inr req \<and> req_ID req \<noteq> [] \<and> devices s (req_ID req) \<noteq> None \<and>
    (req_Algorithm req = AlgorithmRSA \<or> req_Algorithm req = AlgorithmECDSA) \<and>
    generate_keys env (req_Algorithm req) = Inr keys"
  obtain publicKey privateKey where keys: "keys = (publicKey, privateKey)"
    by (cases keys)
  from h have "CreateDevice env s b =
      (s\<lparr>objects := objects s @
            [NewDevice (req_ID req) (req_Algorithm req) (req_Label req) publicKey privateKey]\<rparr>,
       StatusConflict, ErrorResponse [''Device with this ID already exists''])"
    by (subst CreateDevice_generated [of b req env publicKey privateKey])
      (auto simp: keys Let_def)
  then show "snd (CreateDevice env s b) =
        (StatusConflict, ErrorResponse [''Device with this ID already exists''])"
    and "devices (fst (CreateDevice env s b)) = devices s"
    by simp_all
qed

theorem store_errors_witness:
  "devices state_X (ID (objects (state_X\<lparr>objects := [device_X, device_X]\<rparr>) ! 1)) \<noteq> None \<and>
   Create (state_X\<lparr>objects := [device_X, device_X]\<rparr>) 1 = Inl ErrDeviceAlreadyExists \<and>
   devices NewInMemoryRepository (ID (objects (NewInMemoryRepository\<lparr>objects := [device_X]\<rparr>) ! 0)) = None \<and>
   Create (NewInMemoryRepository\<lparr>objects := [device_X]\<rparr>) 0 = Inr state_X \<and>
   devices state_X ''Y'' = None \<and>
   Get state_X ''Y'' = Inl ErrDeviceNotFound \<and>
   req_ID \<lparr>req_ID = ''X'', req_Algorithm = ''RSA'', req_Label = ''till 2''\<rparr> \<noteq> [] \<and>
   generate_keys (example_env ''s1'') ''RSA'' = Inr (RSAPublicKey 1, RSAPrivateKey 2) \<and>
   snd (CreateDevice (example_env ''s1'') state_X
          (Inr \<lparr>req_ID = ''X'', req_Algorithm = ''RSA'', req_Label = ''till 2''\<rparr>)) =
     (StatusConflict, ErrorResponse [''Device with this ID already exists'']) \<and>
   GetDevice state_X ''Y'' = (state_X, StatusNotFound, ErrorResponse [''Device not found'']) \<and>
   hello = Inr \<lparr>Data = ''hello''\<rparr> \<and>
   SignTransaction (example_env ''s1'') state_X ''Y'' hello =
     (state_X, StatusNotFound, ErrorResponse [''Device not found''])"
  using store_errors [of "state_X\<lparr>objects := [device_X, device_X]\<rparr>" 1 ErrDeviceAlreadyExists
      "''Y''" "Inr \<lparr>req_ID = ''X'', req_Algorithm = ''RSA'', req_Label = ''till 2''\<rparr>"
      "\<lparr>req_ID = ''X'', req_Algorithm = ''RSA'', req_Label = ''till 2''\<rparr>"
      "example_env ''s1''" "(RSAPublicKey 1, RSAPrivateKey 2)" hello "\<lparr>Data = ''hello''\<rparr>"]
    store_errors [of state_X 0 ErrDeviceNotFound "''Y''"
      "Inr \<lparr>req_ID = ''X'', req_Algorithm = ''RSA'', req_Label = ''till 2''\<rparr>"
      "\<lparr>req_ID = ''X'', req_Algorithm = ''RSA'', req_Label = ''till 2''\<rparr>"
      "example_env ''s1''" "(RSAPublicKey 1, RSAPrivateKey 2)" hello "\<lparr>Data = ''hello''\<rparr>"]
    store_errors [of "NewInMemoryRepository\<lparr>objects := [device_X]\<rparr>" 0 ErrDeviceNotFound "''Y''"]
  by (simp add: example_defs generate_keys_def NewInMemoryRepository_def)

section \<open>The view of a device\<close>

lemma device_response_keys [simp]:
  "device_response (d\<lparr>PublicKey := p, PrivateKey := q\<rparr>) = device_response d"
  by (simp add: device_response_def)

lemma devices_rekey [simp]: "devices (rekey f s) = devices s"
  by (simp add: rekey_def)

lemma length_objects_rekey [simp]: "length (objects (rekey f s)) = length (objects s)"
  by (simp add: rekey_def)

lemma device_response_rekey:
  "r < length (objects s) \<Longrightarrow>
     device_response (objects (rekey f s) ! r) = device_response (objects s ! r)"
  by (simp add: rekey_def)

lemma generate_keys_succeeds:
  assumes "RSAGenerate env = Inr rsa" and "ECCGenerate env = Inr ecc"
  shows "\<exists>publicKey privateKey. generate_keys env a = Inr (publicKey, privateKey)"
  using assms by (cases rsa; cases ecc) (simp add: generate_keys_def)

lemma CreateDevice_response:
  assumes "generate_keys env (req_Algorithm req) = Inr (publicKey, privateKey)"
    and "b = Inr req"
    and "req_Algorithm req = AlgorithmRSA \<or> req_Algorithm req = AlgorithmECDSA"
  shows "snd (CreateDevice env s b) =
     (let deviceID = (if req_ID req = [] then uuid_New env else req_ID req)
      in if devices s deviceID \<noteq> None then
           (StatusConflict, ErrorResponse [''Device with this ID already exists''])
         else
           (StatusCreated,
            DeviceData \<lparr>resp_ID = deviceID, resp_Algorithm = req_Algorithm req,
                        resp_Label = req_Label req, resp_SignatureCounter = 0\<rparr>))"
  by (simp add: CreateDevice_generated [OF assms(2,3,1)] Let_def device_response_def NewDevice_def)

text \<open>
  C9. The view of a device that the handlers return has the id, the algorithm, the
  label and the signature counter, and nothing else. It does not depend on the keys:
  the answers of \<^verbatim>\<open>GetDevice\<close>, \<^verbatim>\<open>ListDevices\<close> and \<^verbatim>\<open>CreateDevice\<close> are the same
  when the stored devices hold other keys and the generators return other keys.
\<close>

theorem views_hide_keys:
  assumes "well_formed s" and "set (range_order env) \<subseteq> dom (devices s)"
    and "RSAGenerate env = Inr rsa" and "ECCGenerate env = Inr ecc"
  shows "device_response d =
           \<lparr>resp_ID = ID d, resp_Algorithm = Algorithm d, resp_Label = Label d,
            resp_SignatureCounter = SignatureCounter d\<rparr> \<and>
         device_response (d\<lparr>PublicKey := p, PrivateKey := q\<rparr>) = device_response d \<and>
         snd (GetDevice (rekey f s) k) = snd (GetDevice s k) \<and>
         (\<forall>r. devices s k = Some r \<longrightarrow>
            snd (GetDevice s k) = (StatusOK, DeviceData (device_response (objects s ! r)))) \<and>
         snd (ListDevices env (rekey f s)) = snd (ListDevices env s) \<and>
         snd (ListDevices env s) =
           (StatusOK, DeviceListData
              (map (\<lambda>k. device_response (objects s ! the (devices s k))) (range_order env))) \<and>
         snd (CreateDevice (env\<lparr>RSAGenerate := Inr rsa', ECCGenerate := Inr ecc'\<rparr>) (rekey f s) b)
           = snd (CreateDevice env s b)"
proof (intro conjI allI impI)
  show "device_response d =
           \<lparr>resp_ID = ID d, resp_Algorithm = Algorithm d, resp_Label = Label d,
            resp_SignatureCounter = SignatureCounter d\<rparr>"
    by (simp add: device_response_def)
  show "device_response (d\<lparr>PublicKey := p, PrivateKey := q\<rparr>) = device_response d"
    by simp
  show "snd (GetDevice (rekey f s) k) = snd (GetDevice s k)"
  proof (cases "devices s k")
    case None
    then show ?thesis by (simp add: GetDevice_def Get_def)
  next
    case (Some r)
    with assms(1) have "r < length (objects s)"
      using wf_lookup by blast
    with Some show ?thesis
      by (simp add: GetDevice_def Get_def device_response_rekey)
  qed
  show "snd (GetDevice s k) = (StatusOK, DeviceData (device_response (objects s ! r)))"
    if "devices s k = Some r" for r
    using that by (simp add: GetDevice_def Get_def)
  have "device_response (objects (rekey f s) ! the (devices s k')) =
        device_response (objects s ! the (devices s k'))"
    if "k' \<in> set (range_order env)" for k'
  proof -
    from that assms(2) obtain r where "devices s k' = Some r" by auto
    with assms(1) show ?thesis
      using wf_lookup [of s k' r] by (simp add: device_response_rekey)
  qed
  then show "snd (ListDevices env (rekey f s)) = snd (ListDevices env s)"
    by (simp add: ListDevices_def List_devices_def)
  show "snd (ListDevices env s) =
           (StatusOK, DeviceListData
              (map (\<lambda>k. device_response (objects s ! the (devices s k))) (range_order env)))"
    by (simp add: ListDevices_def List_devices_def comp_def)
  show "snd (CreateDevice (env\<lparr>RSAGenerate := Inr rsa', ECCGenerate := Inr ecc'\<rparr>) (rekey f s) b)
           = snd (CreateDevice env s b)"
  proof (cases "ShouldBindJSON_CreateDeviceRequest b")
    case (Inl err)
    then show ?thesis by (simp add: CreateDevice_def)
  next
    case (Inr req)
    then have b: "b = Inr req"
      by (auto simp: ShouldBindJSON_CreateDeviceRequest_def split: sum.splits if_splits)
    show ?thesis
    proof (cases "req_Algorithm req = AlgorithmRSA \<or> req_Algorithm req = AlgorithmECDSA")
      case False
      with Inr show ?thesis by (simp add: CreateDevice_def)
    next
      case True
      obtain pk sk where new: "generate_keys env (req_Algorithm req) = Inr (pk, sk)"
        using generate_keys_succeeds [OF assms(3,4)] by blast
      obtain pk' sk' where
        new': "generate_keys (env\<lparr>RSAGenerate := Inr rsa', ECCGenerate := Inr ecc'\<rparr>)
                 (req_Algorithm req) = Inr (pk', sk')"
        using generate_keys_succeeds
          [of "env\<lparr>RSAGenerate := Inr rsa', ECCGenerate := Inr ecc'\<rparr>" rsa' ecc'
              "req_Algorithm req"]
        by auto
      show ?thesis
        by (simp add: CreateDevice_response [OF new b True] CreateDevice_response [OF new' b True])
    qed
  qed
qed

theorem views_hide_keys_witness:
  "well_formed state_X \<and> set (range_order (example_env ''s1'')) \<subseteq> dom (devices state_X) \<and>
   RSAGenerate (example_env ''s1'') = Inr (1, 2) \<and> ECCGenerate (example_env ''s1'') = Inr (3, 4) \<and>
   devices state_X ''X'' = Some 0 \<and>
   snd (GetDevice (rekey (\<lambda>d. (NilKey, NilKey)) state_X) ''X'') =
     (StatusOK, DeviceData \<lparr>resp_ID = ''X'', resp_Algorithm = ''RSA'', resp_Label = ''till 1'',
                             resp_SignatureCounter = 0\<rparr>) \<and>
   snd (ListDevices (example_env ''s1'') (rekey (\<lambda>d. (NilKey, NilKey)) state_X)) =
     (StatusOK, DeviceListData [\<lparr>resp_ID = ''X'', resp_Algorithm = ''RSA'',
                                  resp_Label = ''till 1'', resp_SignatureCounter = 0\<rparr>])"
proof -
  have h: "well_formed state_X" "set (range_order (example_env ''s1'')) \<subseteq> dom (devices state_X)"
    "RSAGenerate (example_env ''s1'') = Inr (1, 2)" "ECCGenerate (example_env ''s1'') = Inr (3, 4)"
    by (simp_all add: well_formed_state_X) (simp_all add: example_defs)
  from views_hide_keys [OF h, of device_X NilKey NilKey "\<lambda>d. (NilKey, NilKey)" "''X''"] h
  show ?thesis
    by (simp add: example_defs device_response_def)
qed

section \<open>What the requests change\<close>

text \<open>What a creation request does to the state.\<close>

lemma CreateDevice_state:
  obtains (unchanged) "fst (CreateDevice env s b) = s"
  | (conflict) d where "fst (CreateDevice env s b) = s\<lparr>objects := objects s @ [d]\<rparr>"
  | (created) d where "devices s (ID d) = None"
      "fst (CreateDevice env s b) =
         s\<lparr>objects := objects s @ [d], devices := (devices s)(ID d \<mapsto> length (objects s))\<rparr>"
proof (cases "ShouldBindJSON_CreateDeviceRequest b")
  case (Inl err)
  then have "fst (CreateDevice env s b) = s" by (simp add: CreateDevice_def)
  then show ?thesis by (rule unchanged)
next
  case (Inr req)
  then have b: "b = Inr req"
    by (auto simp: ShouldBindJSON_CreateDeviceRequest_def split: sum.splits if_splits)
  show ?thesis
  proof (cases "req_Algorithm req = AlgorithmRSA \<or> req_Algorithm req = AlgorithmECDSA")
    case False
    with Inr have "fst (CreateDevice env s b) = s" by (simp add: CreateDevice_def)
    then show ?thesis by (rule unchanged)
  next
    case True
    show ?thesis
    proof (cases "generate_keys env (req_Algorithm req)")
      case (Inl failure)
      with Inr True have "fst (CreateDevice env s b) = s"
        by (auto simp: CreateDevice_def Let_def)
      then show ?thesis by (rule unchanged)
    next
      case (Inr keys)
      obtain publicKey privateKey where "keys = (publicKey, privateKey)"
        by (cases keys)
      with Inr have gen: "generate_keys env (req_Algorithm req) = Inr (publicKey, privateKey)"
        by simp
      define d where "d = NewDevice (if req_ID req = [] then uuid_New env else req_ID req)
          (req_Algorithm req) (req_Label req) publicKey privateKey"
      have idd: "ID d = (if req_ID req = [] then uuid_New env else req_ID req)"
        by (simp add: d_def NewDevice_def)
      note eq = CreateDevice_generated [OF b True gen, of s, unfolded Let_def, folded d_def, folded idd]
      show ?thesis
      proof (cases "devices s (ID d) = None")
        case True
        with eq have "fst (CreateDevice env s b) =
            s\<lparr>objects := objects s @ [d], devices := (devices s)(ID d \<mapsto> length (objects s))\<rparr>"
          by simp
        with True show ?thesis by (rule created)
      next
        case False
        with eq have "fst (CreateDevice env s b) = s\<lparr>objects := objects s @ [d]\<rparr>"
          by simp
        then show ?thesis by (rule conflict)
      qed
    qed
  qed
qed

lemma well_formed_CreateDevice:
  assumes "well_formed s"
  shows "well_formed (fst (CreateDevice env s b))"
proof (cases rule: CreateDevice_state [of env s b])
  case unchanged
  with assms show ?thesis by simp
next
  case (conflict d)
  with assms show ?thesis
    by (auto simp: well_formed_def nth_append less_Suc_eq)
next
  case (created d)
  with assms show ?thesis
    by (auto simp: well_formed_def nth_append less_Suc_eq)
qed

lemma Run_sign_cases:
  assumes "well_formed s"
  obtains (same) "fst (SignTransaction env s k b) = s"
  | (commit) r x where "devices s k = Some r"
      "fst (SignTransaction env s k b) =
         s\<lparr>objects := list_update (objects s) r (IncrementCounter (objects s ! r) x)\<rparr>"
proof (rule SignTransaction_cases [OF assms, of env k b])
  show "SignTransaction env s k b = (fst (SignTransaction env s k b), snd (SignTransaction env s k b))"
    by simp
next
  assume "fst (SignTransaction env s k b) = s"
  then show ?thesis by (rule same)
next
  fix r signature
  assume "devices s k = Some r"
    "fst (SignTransaction env s k b) = s\<lparr>objects := list_update (objects s) r
                             (IncrementCounter (objects s ! r) (EncodeToString signature))\<rparr>"
  then show ?thesis by (rule commit)
qed

lemma well_formed_Run:
  assumes "well_formed s"
  shows "well_formed (Run env s req)"
proof (cases req)
  case (CreateDeviceRequest_of b)
  with assms show ?thesis by (simp add: well_formed_CreateDevice)
next
  case (SignTransactionRequest_of k b)
  with assms show ?thesis
    using wf_SignTransaction [of s env k b] by (simp add: prod_eq_iff)
qed (use assms in \<open>simp_all add: Health_def ListDevices_def GetDevice_def split: sum.splits\<close>)

text \<open>The states of the repository are well formed.\<close>

lemma well_formed_NewInMemoryRepository: "well_formed NewInMemoryRepository"
  by (simp add: well_formed_def NewInMemoryRepository_def)

lemma well_formed_Create:
  assumes "well_formed s" and "r < length (objects s)" and "Create s r = Inr s'"
  shows "well_formed s'"
  using assms by (auto simp: well_formed_def Create_Inr)

lemma well_formed_Update:
  assumes "well_formed s" and "r < length (objects s)" and "Update s r = Inr s'"
  shows "well_formed s'"
  using assms by (auto simp: well_formed_def Update_Inr)

lemma Run_frame:
  assumes "well_formed s" and "r < length (objects s)"
  shows "r < length (objects (Run env s req)) \<and>
         (\<exists>c l. objects (Run env s req) ! r = (objects s ! r)\<lparr>SignatureCounter := c, LastSignature := l\<rparr>) \<and>
         (\<forall>k. devices s k = Some r \<longrightarrow> devices (Run env s req) k = Some r)"
proof -
  have triv: "\<exists>c l. d = d\<lparr>SignatureCounter := c, LastSignature := l\<rparr>" for d :: Device
    by (rule exI [of _ "SignatureCounter d"], rule exI [of _ "LastSignature d"]) simp
  show ?thesis
  proof (cases req)
    case HealthRequest
    then show ?thesis using assms(2) triv by (simp add: Health_def)
  next
    case (CreateDeviceRequest_of b)
    show ?thesis
    proof (cases rule: CreateDevice_state [of env s b])
      case unchanged
      with CreateDeviceRequest_of assms(2) triv show ?thesis by simp
    next
      case (conflict d)
      with CreateDeviceRequest_of assms(2) triv show ?thesis by (simp add: nth_append)
    next
      case (created d)
      with CreateDeviceRequest_of assms(2) triv show ?thesis by (auto simp: nth_append)
    qed
  next
    case ListDevicesRequest
    then show ?thesis using assms(2) triv by (simp add: ListDevices_def List_devices_def)
  next
    case (GetDeviceRequest k)
    then show ?thesis using assms(2) triv by (simp add: GetDevice_def split: sum.splits)
  next
    case (SignTransactionRequest_of k b)
    from assms(1) show ?thesis
    proof (cases rule: Run_sign_cases [of s env k b])
      case same
      with SignTransactionRequest_of assms(2) triv show ?thesis by simp
    next
      case (commit r' x)
      show ?thesis
      proof (cases "r' = r")
        case True
        have "\<exists>c l. IncrementCounter (objects s ! r) x =
                (objects s ! r)\<lparr>SignatureCounter := c, LastSignature := l\<rparr>"
          unfolding IncrementCounter_def by blast
        with True commit SignTransactionRequest_of assms(2) show ?thesis by simp
      next
        case False
        with commit SignTransactionRequest_of assms(2) triv show ?thesis by simp
      qed
    qed
  qed
qed


lemma Runs_frame:
  assumes "well_formed s" and "r < length (objects s)"
  shows "well_formed (foldl (\<lambda>s c. Run (fst c) s (snd c)) s reqs) \<and>
         r < length (objects (foldl (\<lambda>s c. Run (fst c) s (snd c)) s reqs)) \<and>
         (\<exists>c l. objects (foldl (\<lambda>s c. Run (fst c) s (snd c)) s reqs) ! r =
                  (objects s ! r)\<lparr>SignatureCounter := c, LastSignature := l\<rparr>) \<and>
         (\<forall>k. devices s k = Some r \<longrightarrow>
              devices (foldl (\<lambda>s c. Run (fst c) s (snd c)) s reqs) k = Some r)"
  using assms
proof (induction reqs arbitrary: s)
  case Nil
  have "\<exists>c l. objects s ! r = (objects s ! r)\<lparr>SignatureCounter := c, LastSignature := l\<rparr>"
    by (rule exI [of _ "SignatureCounter (objects s ! r)"],
        rule exI [of _ "LastSignature (objects s ! r)"]) simp
  with Nil show ?case by simp
next
  case (Cons c reqs)
  let ?s1 = "Run (fst c) s (snd c)"
  let ?s2 = "foldl (\<lambda>s c. Run (fst c) s (snd c)) ?s1 reqs"
  note one = Run_frame [OF Cons.prems, of "fst c" "snd c"]
  have wf1: "well_formed ?s1"
    using Cons.prems(1) by (rule well_formed_Run)
  from one have len1: "r < length (objects ?s1)" by blast
  note rest = Cons.IH [OF wf1 len1]
  from one obtain c1 l1 where
    o1: "objects ?s1 ! r = (objects s ! r)\<lparr>SignatureCounter := c1, LastSignature := l1\<rparr>"
    by blast
  from rest obtain c2 l2 where
    o2: "objects ?s2 ! r = (objects ?s1 ! r)\<lparr>SignatureCounter := c2, LastSignature := l2\<rparr>"
    by blast
  have "objects ?s2 ! r = (objects s ! r)\<lparr>SignatureCounter := c2, LastSignature := l2\<rparr>"
    by (simp add: o1 o2)
  then have "\<exists>c l. objects ?s2 ! r = (objects s ! r)\<lparr>SignatureCounter := c, LastSignature := l\<rparr>"
    by blast
  moreover have "\<forall>k. devices s k = Some r \<longrightarrow> devices ?s2 k = Some r"
    using one rest by blast
  ultimately show ?case
    using rest by simp
qed

text \<open>
  C8. Whatever requests the server handles after a device was allocated, the id, the
  algorithm, the label and the two keys of the device are what they were, and the
  device stays stored under its id. A successful sign changes the signature counter
  and the last signature of the signing device and nothing else in the state.
\<close>

theorem device_fields_immutable:
  assumes "well_formed s" and "r < length (objects s)"
    and "s' = foldl (\<lambda>s c. Run (fst c) s (snd c)) s reqs"
  shows "r < length (objects s') \<and>
         ID (objects s' ! r) = ID (objects s ! r) \<and>
         Algorithm (objects s' ! r) = Algorithm (objects s ! r) \<and>
         Label (objects s' ! r) = Label (objects s ! r) \<and>
         PublicKey (objects s' ! r) = PublicKey (objects s ! r) \<and>
         PrivateKey (objects s' ! r) = PrivateKey (objects s ! r) \<and>
         (\<forall>k. devices s k = Some r \<longrightarrow> devices s' k = Some r) \<and>
         (SignTransaction env s k b = (s1, resp) \<and> succeeded resp \<longrightarrow>
            devices s1 = devices s \<and>
            (\<exists>r1 c l. devices s k = Some r1 \<and>
               objects s1 = list_update (objects s) r1
                 ((objects s ! r1)\<lparr>SignatureCounter := c, LastSignature := l\<rparr>)))"
proof -
  from Runs_frame [OF assms(1,2), of reqs] obtain c l where
    "r < length (objects s')"
    "objects s' ! r = (objects s ! r)\<lparr>SignatureCounter := c, LastSignature := l\<rparr>"
    "\<forall>k. devices s k = Some r \<longrightarrow> devices s' k = Some r"
    unfolding assms(3) by blast
  then have fields: "r < length (objects s') \<and>
         ID (objects s' ! r) = ID (objects s ! r) \<and>
         Algorithm (objects s' ! r) = Algorithm (objects s ! r) \<and>
         Label (objects s' ! r) = Label (objects s ! r) \<and>
         PublicKey (objects s' ! r) = PublicKey (objects s ! r) \<and>
         PrivateKey (objects s' ! r) = PrivateKey (objects s ! r) \<and>
         (\<forall>k. devices s k = Some r \<longrightarrow> devices s' k = Some r)"
    by simp
  have "devices s1 = devices s \<and>
            (\<exists>r1 c l. devices s k = Some r1 \<and>
               objects s1 = list_update (objects s) r1
                 ((objects s ! r1)\<lparr>SignatureCounter := c, LastSignature := l\<rparr>))"
    if sign: "SignTransaction env s k b = (s1, resp)" and ok: "succeeded resp"
  proof (rule SignTransaction_cases [OF assms(1) sign])
    assume "\<not> succeeded resp"
    with ok show ?thesis by simp
  next
    fix r1 signature
    assume "devices s k = Some r1"
      "s1 = s\<lparr>objects := list_update (objects s) r1
                             (IncrementCounter (objects s ! r1) (EncodeToString signature))\<rparr>"
    then show ?thesis
      unfolding IncrementCounter_def by auto
  qed
  with fields show ?thesis by blast
qed

theorem device_fields_immutable_witness:
  "well_formed state_X \<and> (0::nat) < length (objects state_X) \<and>
   succeeded (snd (SignTransaction (example_env ''s1'') state_X ''X'' hello)) \<and>
   objects (foldl (\<lambda>s c. Run (fst c) s (snd c)) state_X
      [(example_env ''s1'', SignTransactionRequest_of ''X'' hello),
       (example_env ''s1'', CreateDeviceRequest_of
          (Inr \<lparr>req_ID = ''X'', req_Algorithm = ''ECDSA'', req_Label = ''till 2''\<rparr>))]) ! 0 =
     device_X\<lparr>SignatureCounter := 1, LastSignature := ''czE=''\<rparr> \<and>
   ID (device_X\<lparr>SignatureCounter := 1, LastSignature := ''czE=''\<rparr>) = ID (objects state_X ! 0) \<and>
   PrivateKey (device_X\<lparr>SignatureCounter := 1, LastSignature := ''czE=''\<rparr>) =
     PrivateKey (objects state_X ! 0)"
proof -
  have h: "well_formed state_X" "(0::nat) < length (objects state_X)"
    by (simp_all add: well_formed_state_X) (simp add: state_X_def)
  have enc: "EncodeToString ''s1'' = ''czE=''"
    by (simp add: EncodeToString_def b64_def encodeStd_def)
  have run: "foldl (\<lambda>s c. Run (fst c) s (snd c)) state_X
      [(example_env ''s1'', SignTransactionRequest_of ''X'' hello),
       (example_env ''s1'', CreateDeviceRequest_of
          (Inr \<lparr>req_ID = ''X'', req_Algorithm = ''ECDSA'', req_Label = ''till 2''\<rparr>))] =
     state_X\<lparr>objects := [device_X\<lparr>SignatureCounter := 1, LastSignature := ''czE=''\<rparr>,
                           NewDevice ''X'' ''ECDSA'' ''till 2'' (ECDSAPublicKey 3) (ECDSAPrivateKey 4)]\<rparr>"
    by (simp add: SignTransaction_state_X enc IncrementCounter_def)
      (simp add: CreateDevice_def ShouldBindJSON_CreateDeviceRequest_def generate_keys_def
        new_object_def Create_def Let_def example_defs)
  from device_fields_immutable [OF h run [symmetric],
      of "example_env ''s1''" "''X''" hello
         "fst (SignTransaction (example_env ''s1'') state_X ''X'' hello)"
         "snd (SignTransaction (example_env ''s1'') state_X ''X'' hello)"] h run
  show ?thesis
    by (simp add: SignTransaction_state_X succeeded_def)
qed

section \<open>Sequential runs of the signing handler\<close>

text \<open>One call of the handler, seen from the device it signs with.\<close>

lemma sign_step:
  assumes "well_formed s" and "devices s k = Some r" and "SignTransaction env s k b = (s1, resp)"
  shows "well_formed s1 \<and> devices s1 = devices s \<and> length (objects s1) = length (objects s) \<and>
    (if succeeded resp then
       objects s1 ! r = IncrementCounter (objects s ! r) (signature_of resp) \<and>
       (\<exists>x. signed_data resp =
          Sprintf_d (sint (SignatureCounter (objects s ! r))) @ ''_'' @ x @ ''_'' @
          (if LastSignature (objects s ! r) = [] then EncodeToString (ID (objects s ! r))
           else LastSignature (objects s ! r))) \<and>
       (\<exists>signature. signature_of resp = EncodeToString signature \<and>
          (nonempty_signatures env \<longrightarrow> signature \<noteq> []))
     else s1 = s)"
proof (rule SignTransaction_cases [OF assms(1,3)])
  assume "\<not> succeeded resp" "s1 = s"
  with assms(1) show ?thesis by simp
next
  fix req :: SignTransactionRequest and r' signature
  assume h: "devices s k = Some r'"
    "resp = (StatusOK, SignatureData \<lparr>Signature = EncodeToString signature,
                 SignedData = snd (GetSecuredDataToSign (objects s ! r') (Data req))\<rparr>)"
    "s1 = s\<lparr>objects := list_update (objects s) r'
                             (IncrementCounter (objects s ! r') (EncodeToString signature))\<rparr>"
    "nonempty_signatures env \<longrightarrow> signature \<noteq> []"
  from h(1) assms(2) have r': "r' = r" by simp
  from assms(1,2) have len: "r < length (objects s)"
    using wf_lookup by blast
  have ok: "succeeded resp"
    by (simp add: h(2) succeeded_def)
  have wf1: "well_formed s1"
    unfolding h(3) using assms(1) by (rule wf_commit)
  have obj: "objects s1 ! r = IncrementCounter (objects s ! r) (signature_of resp)"
    using len by (simp add: h(2,3) r')
  have data: "signed_data resp =
          Sprintf_d (sint (SignatureCounter (objects s ! r))) @ ''_'' @ Data req @ ''_'' @
          (if LastSignature (objects s ! r) = [] then EncodeToString (ID (objects s ! r))
           else LastSignature (objects s ! r))"
    by (simp add: h(2) r' GetSecuredDataToSign_def Let_def)
  have sig: "\<exists>signature. signature_of resp = EncodeToString signature \<and>
          (nonempty_signatures env \<longrightarrow> signature \<noteq> [])"
    using h(4) by (auto simp: h(2))
  from ok wf1 obj data sig show ?thesis
    by (auto simp: h(3))
qed

lemma SignTransactions_Cons:
  assumes "SignTransactions s k (c # calls) = (s', resps)"
  obtains s1 resp rest where "SignTransaction (fst c) s k (snd c) = (s1, resp)"
    "SignTransactions s1 k calls = (s', rest)" "resps = resp # rest"
  using assms by (auto simp: Let_def split: prod.splits)

lemma SignTransactions_structure:
  assumes "well_formed s" and "devices s k = Some r" and "SignTransactions s k calls = (s', resps)"
  shows "well_formed s' \<and> devices s' = devices s \<and> length (objects s') = length (objects s) \<and>
         length resps = length calls"
  using assms
proof (induction calls arbitrary: s resps)
  case Nil
  then show ?case by simp
next
  case (Cons c calls)
  from Cons.prems(3) obtain s1 resp rest where
    one: "SignTransaction (fst c) s k (snd c) = (s1, resp)"
    and more: "SignTransactions s1 k calls = (s', rest)" and resps: "resps = resp # rest"
    by (rule SignTransactions_Cons)
  note step = sign_step [OF Cons.prems(1,2) one]
  then have "well_formed s1" "devices s1 k = Some r"
    using Cons.prems(2) by simp_all
  from Cons.IH [OF this more] step resps show ?case by simp
qed

text \<open>The counter after a run, and the counter in each signed string.\<close>

lemma SignTransactions_counter:
  assumes "well_formed s" and "devices s k = Some r" and "SignTransactions s k calls = (s', resps)"
  shows "SignatureCounter (objects s' ! r) =
           SignatureCounter (objects s ! r) + of_nat (length (filter succeeded resps))"
  using assms
proof (induction calls arbitrary: s resps)
  case Nil
  then show ?case by simp
next
  case (Cons c calls)
  from Cons.prems(3) obtain s1 resp rest where
    one: "SignTransaction (fst c) s k (snd c) = (s1, resp)"
    and more: "SignTransactions s1 k calls = (s', rest)" and resps: "resps = resp # rest"
    by (rule SignTransactions_Cons)
  note step = sign_step [OF Cons.prems(1,2) one]
  then have "well_formed s1" "devices s1 k = Some r"
    using Cons.prems(2) by simp_all
  note IH = Cons.IH [OF this more]
  show ?case
  proof (cases "succeeded resp")
    case True
    with step have "SignatureCounter (objects s1 ! r) = SignatureCounter (objects s ! r) + 1"
      by (simp add: IncrementCounter_def)
    with IH True resps show ?thesis by simp
  next
    case False
    with step have "s1 = s" by simp
    with IH False resps show ?thesis by simp
  qed
qed

lemma SignTransactions_embedded:
  assumes "well_formed s" and "devices s k = Some r" and "SignTransactions s k calls = (s', resps)"
    and "i < length resps" and "succeeded (resps ! i)"
  shows "embedded_counter (signed_data (resps ! i)) =
           Sprintf_d (sint (SignatureCounter (objects s ! r) +
                            of_nat (length (filter succeeded (take i resps)))))"
  using assms
proof (induction calls arbitrary: s resps i)
  case Nil
  then show ?case by simp
next
  case (Cons c calls)
  from Cons.prems(3) obtain s1 resp rest where
    one: "SignTransaction (fst c) s k (snd c) = (s1, resp)"
    and more: "SignTransactions s1 k calls = (s', rest)" and resps: "resps = resp # rest"
    by (rule SignTransactions_Cons)
  note step = sign_step [OF Cons.prems(1,2) one]
  then have s1: "well_formed s1" "devices s1 k = Some r"
    using Cons.prems(2) by simp_all
  show ?case
  proof (cases i)
    case 0
    with Cons.prems(5) resps have "succeeded resp" by simp
    with step obtain x where "signed_data resp =
          Sprintf_d (sint (SignatureCounter (objects s ! r))) @ ''_'' @ x @ ''_'' @
          (if LastSignature (objects s ! r) = [] then EncodeToString (ID (objects s ! r))
           else LastSignature (objects s ! r))"
      by auto
    then have "embedded_counter (signed_data resp) = Sprintf_d (sint (SignatureCounter (objects s ! r)))"
      by (simp only: embedded_counter_append [OF Sprintf_d_no_underscore])
    with 0 resps show ?thesis by simp
  next
    case (Suc j)
    with Cons.prems(4,5) resps have j: "j < length rest" "succeeded (rest ! j)"
      by simp_all
    note IH = Cons.IH [OF s1 more j]
    show ?thesis
    proof (cases "succeeded resp")
      case True
      with step have "SignatureCounter (objects s1 ! r) = SignatureCounter (objects s ! r) + 1"
        by (simp add: IncrementCounter_def)
      with IH True resps Suc show ?thesis by (simp add: add.assoc)
    next
      case False
      with step have "s1 = s" by simp
      with IH False resps Suc show ?thesis by simp
    qed
  qed
qed

text \<open>The last signature after a run.\<close>

lemma SignTransactions_last:
  assumes "well_formed s" and "devices s k = Some r" and "SignTransactions s k calls = (s', resps)"
  shows "LastSignature (objects s' ! r) =
           (if filter succeeded resps = [] then LastSignature (objects s ! r)
            else signature_of (last (filter succeeded resps)))"
  using assms
proof (induction calls arbitrary: s resps)
  case Nil
  then show ?case by simp
next
  case (Cons c calls)
  from Cons.prems(3) obtain s1 resp rest where
    one: "SignTransaction (fst c) s k (snd c) = (s1, resp)"
    and more: "SignTransactions s1 k calls = (s', rest)" and resps: "resps = resp # rest"
    by (rule SignTransactions_Cons)
  note step = sign_step [OF Cons.prems(1,2) one]
  then have "well_formed s1" "devices s1 k = Some r"
    using Cons.prems(2) by simp_all
  note IH = Cons.IH [OF this more]
  show ?case
  proof (cases "succeeded resp")
    case True
    with step have "LastSignature (objects s1 ! r) = signature_of resp"
      by (simp add: IncrementCounter_def)
    with IH True resps show ?thesis by simp
  next
    case False
    with step have "s1 = s" by simp
    with IH False resps show ?thesis by simp
  qed
qed

lemma SignTransactions_signatures:
  assumes "well_formed s" and "devices s k = Some r" and "SignTransactions s k calls = (s', resps)"
    and "\<forall>c \<in> set calls. nonempty_signatures (fst c)"
    and "resp \<in> set resps" and "succeeded resp"
  shows "\<exists>signature. signature \<noteq> [] \<and> signature_of resp = EncodeToString signature"
  using assms
proof (induction calls arbitrary: s resps)
  case Nil
  then show ?case by simp
next
  case (Cons c calls)
  from Cons.prems(3) obtain s1 resp1 rest where
    one: "SignTransaction (fst c) s k (snd c) = (s1, resp1)"
    and more: "SignTransactions s1 k calls = (s', rest)" and resps: "resps = resp1 # rest"
    by (rule SignTransactions_Cons)
  note step = sign_step [OF Cons.prems(1,2) one]
  then have s1: "well_formed s1" "devices s1 k = Some r"
    using Cons.prems(2) by simp_all
  show ?case
  proof (cases "resp = resp1")
    case True
    with step Cons.prems(4,6) show ?thesis by auto
  next
    case False
    with Cons.prems(5) resps have "resp \<in> set rest" by simp
    with Cons.IH [OF s1 more] Cons.prems(4,6) show ?thesis by simp
  qed
qed

section \<open>The counter and the chain\<close>

lemma sint_of_nat_small:
  assumes "n < 2 ^ 63"
  shows "sint (of_nat n :: 64 word) = int n"
proof -
  have "sint (of_nat n :: 64 word) = signed_take_bit 63 (int n)"
    using signed_of_nat [where ?'a = int and ?'b = 64, of n] by simp
  also have "\<dots> = int n"
    using assms by (intro signed_take_bit_int_eq_self) simp_all
  finally show ?thesis .
qed

lemma sint_Suc:
  assumes "sint (c :: 64 word) < 2 ^ 63 - 1"
  shows "sint (c + 1) = sint c + 1"
proof -
  have "- (2 ^ 63) \<le> sint c"
    using sint_ge [of c] by simp
  with assms have "signed_take_bit 63 (sint c + 1) = sint c + 1"
    by (intro signed_take_bit_int_eq_self) simp_all
  then show ?thesis
    by (simp add: sint_word_add)
qed


lemma filter_all_succeeded: "\<forall>resp \<in> set resps. succeeded resp \<Longrightarrow> filter succeeded resps = resps"
  by simp

text \<open>The example server signing again and again.\<close>

lemma sign_single_device:
  assumes "ID d = ''X''" and "Algorithm d = AlgorithmRSA" and "PrivateKey d = RSAPrivateKey key"
  shows "SignTransaction (example_env sig) \<lparr>objects = [d], devices = [''X'' \<mapsto> 0]\<rparr> ''X'' hello =
     (\<lparr>objects = [IncrementCounter d (EncodeToString sig)], devices = [''X'' \<mapsto> 0]\<rparr>,
      StatusOK, SignatureData \<lparr>Signature = EncodeToString sig,
                                SignedData = snd (GetSecuredDataToSign d ''hello'')\<rparr>)"
  using assms
  by (simp add: SignTransaction_def ShouldBindJSON_SignTransactionRequest_def Get_def
      make_signer_def GetRSAPrivateKey_def Update_def Let_def case_prod_beta hello_def
      example_env_def)

lemma sign_repeatedly:
  assumes "ID d = ''X''" and "Algorithm d = AlgorithmRSA" and "PrivateKey d = RSAPrivateKey key"
  shows "\<exists>resps.
     SignTransactions \<lparr>objects = [d], devices = [''X'' \<mapsto> 0]\<rparr> ''X''
        (replicate n (example_env sig, hello)) =
       (\<lparr>objects = [d\<lparr>SignatureCounter := SignatureCounter d + of_nat n,
                        LastSignature := (if n = 0 then LastSignature d else EncodeToString sig)\<rparr>],
         devices = [''X'' \<mapsto> 0]\<rparr>, resps) \<and>
     list_all succeeded resps"
  using assms
proof (induction n arbitrary: d)
  case 0
  then show ?case by simp
next
  case (Suc n)
  let ?d1 = "IncrementCounter d (EncodeToString sig)"
  have "ID ?d1 = ''X''" "Algorithm ?d1 = AlgorithmRSA" "PrivateKey ?d1 = RSAPrivateKey key"
    using Suc.prems by (simp_all add: IncrementCounter_def)
  from Suc.IH [OF this] obtain resps where
    rest: "SignTransactions \<lparr>objects = [?d1], devices = [''X'' \<mapsto> 0]\<rparr> ''X''
        (replicate n (example_env sig, hello)) =
       (\<lparr>objects = [?d1\<lparr>SignatureCounter := SignatureCounter ?d1 + of_nat n,
                        LastSignature := (if n = 0 then LastSignature ?d1 else EncodeToString sig)\<rparr>],
         devices = [''X'' \<mapsto> 0]\<rparr>, resps)"
    and ok: "list_all succeeded resps"
    by blast
  have final: "?d1\<lparr>SignatureCounter := SignatureCounter ?d1 + of_nat n,
                   LastSignature := (if n = 0 then LastSignature ?d1 else EncodeToString sig)\<rparr> =
               d\<lparr>SignatureCounter := SignatureCounter d + of_nat (Suc n),
                 LastSignature := EncodeToString sig\<rparr>"
    by (simp add: IncrementCounter_def add.assoc add.commute)
  note one = sign_single_device [OF Suc.prems, of sig]
  show ?case
  proof (intro exI conjI)
    show "SignTransactions \<lparr>objects = [d], devices = [''X'' \<mapsto> 0]\<rparr> ''X''
        (replicate (Suc n) (example_env sig, hello)) =
       (\<lparr>objects = [d\<lparr>SignatureCounter := SignatureCounter d + of_nat (Suc n),
                        LastSignature := (if Suc n = 0 then LastSignature d else EncodeToString sig)\<rparr>],
         devices = [''X'' \<mapsto> 0]\<rparr>,
        (StatusOK, SignatureData \<lparr>Signature = EncodeToString sig,
                                SignedData = snd (GetSecuredDataToSign d ''hello'')\<rparr>) # resps)"
      by (simp only: replicate_Suc SignTransactions.simps fst_conv snd_conv one Let_def
          prod.case rest final nat.simps if_False)
    show "list_all succeeded
       ((StatusOK, SignatureData \<lparr>Signature = EncodeToString sig,
                                SignedData = snd (GetSecuredDataToSign d ''hello'')\<rparr>) # resps)"
      using ok by (simp add: succeeded_def)
  qed
qed

lemma succeeded_found:
  assumes "well_formed s" and "SignTransaction env s k b = (s1, resp)" and "succeeded resp"
  shows "\<exists>r. devices s k = Some r"
  by (rule SignTransaction_cases [OF assms(1,2)]) (use assms(3) in simp_all)

lemma fail_single_device:
  assumes "ID d = ''X''" and "Algorithm d = AlgorithmRSA" and "PrivateKey d = RSAPrivateKey key"
  shows "SignTransaction failing_env \<lparr>objects = [d], devices = [''X'' \<mapsto> 0]\<rparr> ''X'' hello =
     (\<lparr>objects = [d], devices = [''X'' \<mapsto> 0]\<rparr>,
      StatusInternalServerError, ErrorResponse [''Failed to sign data: EOF''])"
  using assms
  by (simp add: SignTransaction_def ShouldBindJSON_SignTransactionRequest_def Get_def
      make_signer_def GetRSAPrivateKey_def Let_def case_prod_beta hello_def failing_env_def)

lemma device_X_fields:
  "ID device_X = ''X''" "Algorithm device_X = AlgorithmRSA" "PrivateKey device_X = RSAPrivateKey 2"
  "ID (IncrementCounter device_X x) = ''X''" "Algorithm (IncrementCounter device_X x) = AlgorithmRSA"
  "PrivateKey (IncrementCounter device_X x) = RSAPrivateKey 2"
  by (simp_all add: device_X_def NewDevice_def IncrementCounter_def)

lemma base64_s1_s2: "EncodeToString ''s1'' = ''czE=''" "EncodeToString ''s2'' = ''czI=''"
  by (simp_all add: EncodeToString_def b64_def encodeStd_def)

lemma secured_examples:
  "snd (GetSecuredDataToSign device_X ''hello'') = ''0_hello_WA==''"
  "snd (GetSecuredDataToSign (IncrementCounter device_X ''czE='') ''hello'') = ''1_hello_czE=''"
  by (simp_all add: GetSecuredDataToSign_def IncrementCounter_def device_X_def NewDevice_def
      Let_def Sprintf_d_def decimal.simps digit_char_def EncodeToString_def b64_def encodeStd_def)

lemma two_signs:
  "SignTransactions state_X ''X'' [(example_env ''s1'', hello), (example_env ''s2'', hello)] =
     (\<lparr>objects = [IncrementCounter (IncrementCounter device_X ''czE='') ''czI=''],
       devices = [''X'' \<mapsto> 0]\<rparr>,
      [(StatusOK, SignatureData \<lparr>Signature = ''czE='', SignedData = ''0_hello_WA==''\<rparr>),
       (StatusOK, SignatureData \<lparr>Signature = ''czI='', SignedData = ''1_hello_czE=''\<rparr>)])"
  by (simp only: state_X_def SignTransactions.simps fst_conv snd_conv Let_def prod.case
      sign_single_device [OF device_X_fields(1,2,3)] sign_single_device [OF device_X_fields(4,5,6)]
      base64_s1_s2 secured_examples)

lemma sign_fail_sign:
  "SignTransactions state_X ''X''
      [(example_env ''s1'', hello), (failing_env, hello), (example_env ''s2'', hello)] =
     (\<lparr>objects = [IncrementCounter (IncrementCounter device_X ''czE='') ''czI=''],
       devices = [''X'' \<mapsto> 0]\<rparr>,
      [(StatusOK, SignatureData \<lparr>Signature = ''czE='', SignedData = ''0_hello_WA==''\<rparr>),
       (StatusInternalServerError, ErrorResponse [''Failed to sign data: EOF'']),
       (StatusOK, SignatureData \<lparr>Signature = ''czI='', SignedData = ''1_hello_czE=''\<rparr>)])"
  by (simp only: state_X_def SignTransactions.simps fst_conv snd_conv Let_def prod.case
      sign_single_device [OF device_X_fields(1,2,3)] sign_single_device [OF device_X_fields(4,5,6)]
      fail_single_device [OF device_X_fields(4,5,6)] base64_s1_s2 secured_examples)

text \<open>
  C3, as the code has it. On a device whose counter is 0, as \<^verbatim>\<open>NewDevice\<close> leaves
  it, after \<open>n\<close> sequential successful signs with \<open>n\<close> below \<open>2^63\<close> the counter
  is \<open>n\<close> and the signed string of sign number \<open>i\<close> (from 0) starts with the decimal
  \<open>i\<close>. A sign on a device whose counter is below \<open>2^63 - 1\<close> adds 1 to the counter
  when it succeeds and leaves it when it fails.
\<close>

theorem sequential_counter:
  assumes "well_formed s" and "devices s k = Some r"
    and "SignatureCounter (objects s ! r) = 0"
    and "SignTransactions s k calls = (s', resps)"
    and "\<forall>resp \<in> set resps. succeeded resp"
    and "length calls < 2 ^ 63"
  shows "SignatureCounter (NewDevice k algorithm label publicKey privateKey) = 0 \<and>
         sint (SignatureCounter (objects s' ! r)) = int (length calls) \<and>
         length resps = length calls \<and>
         (\<forall>i < length resps. embedded_counter (signed_data (resps ! i)) = Sprintf_d (int i) \<and>
                              parse_int (embedded_counter (signed_data (resps ! i))) = int i) \<and>
         (well_formed t \<and> devices t k = Some r \<and>
          sint (SignatureCounter (objects t ! r)) < 2 ^ 63 - 1 \<and>
          SignTransaction env t k b = (t1, resp) \<longrightarrow>
            sint (SignatureCounter (objects t1 ! r)) =
              sint (SignatureCounter (objects t ! r)) + (if succeeded resp then 1 else 0))"
proof (intro conjI allI impI)
  show "SignatureCounter (NewDevice k algorithm label publicKey privateKey) = 0"
    by (simp add: NewDevice_def)
  have all: "filter succeeded resps = resps"
    using assms(5) by (rule filter_all_succeeded)
  show len: "length resps = length calls"
    using SignTransactions_structure [OF assms(1,2,4)] by simp
  have "SignatureCounter (objects s' ! r) = of_nat (length calls)"
    using SignTransactions_counter [OF assms(1,2,4)] by (simp add: all len assms(3))
  then show "sint (SignatureCounter (objects s' ! r)) = int (length calls)"
    using assms(6) by (simp add: sint_of_nat_small)
  have "embedded_counter (signed_data (resps ! i)) = Sprintf_d (int i)" if "i < length resps" for i
  proof -
    have "filter succeeded (take i resps) = take i resps"
      using assms(5) by (intro filter_all_succeeded) (auto dest: in_set_takeD)
    moreover have "succeeded (resps ! i)"
      using assms(5) that by simp
    moreover have "i < 2 ^ 63"
      using that len assms(6) by simp
    ultimately show ?thesis
      using SignTransactions_embedded [OF assms(1,2,4) that] that
      by (simp add: assms(3) sint_of_nat_small)
  qed
  then show "embedded_counter (signed_data (resps ! i)) = Sprintf_d (int i)"
    and "parse_int (embedded_counter (signed_data (resps ! i))) = int i"
    if "i < length resps" for i
    using that by (simp_all add: parse_int_Sprintf_d)
next
  assume h: "well_formed t \<and> devices t k = Some r \<and>
          sint (SignatureCounter (objects t ! r)) < 2 ^ 63 - 1 \<and>
          SignTransaction env t k b = (t1, resp)"
  then have step: "if succeeded resp
      then objects t1 ! r = IncrementCounter (objects t ! r) (signature_of resp) else t1 = t"
    using sign_step [of t k r env b t1 resp] by (simp split: if_splits)
  show "sint (SignatureCounter (objects t1 ! r)) =
              sint (SignatureCounter (objects t ! r)) + (if succeeded resp then 1 else 0)"
  proof (cases "succeeded resp")
    case True
    with step h show ?thesis
      by (simp add: IncrementCounter_def sint_Suc)
  next
    case False
    with step show ?thesis by simp
  qed
qed


theorem sequential_counter_witness:
  "well_formed state_X \<and> devices state_X ''X'' = Some 0 \<and>
   SignatureCounter (objects state_X ! 0) = 0 \<and>
   list_all succeeded
     (snd (SignTransactions state_X ''X'' [(example_env ''s1'', hello), (example_env ''s2'', hello)])) \<and>
   length [(example_env ''s1'', hello), (example_env ''s2'', hello)] < (2::nat) ^ 63 \<and>
   sint (SignatureCounter (objects (fst (SignTransactions state_X ''X''
      [(example_env ''s1'', hello), (example_env ''s2'', hello)])) ! 0)) = 2 \<and>
   embedded_counter (signed_data (snd (SignTransactions state_X ''X''
      [(example_env ''s1'', hello), (example_env ''s2'', hello)]) ! 1)) = ''1''"
proof -
  have h: "well_formed state_X" "devices state_X ''X'' = Some 0"
    "SignatureCounter (objects state_X ! 0) = 0"
    by (simp_all add: well_formed_state_X) (simp_all add: state_X_def device_X_def NewDevice_def)
  have ok: "\<forall>resp \<in> set [(StatusOK, SignatureData \<lparr>Signature = ''czE='', SignedData = ''0_hello_WA==''\<rparr>),
       (StatusOK, SignatureData \<lparr>Signature = ''czI='', SignedData = ''1_hello_czE=''\<rparr>)].
       succeeded resp"
    by (simp add: succeeded_def)
  have len: "length [(example_env ''s1'', hello), (example_env ''s2'', hello)] < (2::nat) ^ 63"
    by simp
  from sequential_counter [OF h two_signs ok len] h ok len show ?thesis
    by (simp add: two_signs embedded_counter_def del: SignTransactions.simps)
qed

text \<open>
  C3 as stated fails on the code: after \<open>2^63\<close> sequential successful signs on the
  new device \<open>X\<close> the counter is \<open>-2^63\<close>.
\<close>

theorem counter_after_2_63_signs:
  "list_all succeeded (snd (SignTransactions state_X ''X''
      (replicate 9223372036854775808 (example_env ''s1'', hello)))) \<and>
   sint (SignatureCounter (objects (fst (SignTransactions state_X ''X''
      (replicate 9223372036854775808 (example_env ''s1'', hello)))) ! 0)) = - 9223372036854775808"
proof -
  from sign_repeatedly [OF device_X_fields(1,2,3), of 9223372036854775808 "''s1''"]
  obtain resps where
    "SignTransactions state_X ''X'' (replicate 9223372036854775808 (example_env ''s1'', hello)) =
       (\<lparr>objects = [device_X\<lparr>SignatureCounter :=
                         SignatureCounter device_X + of_nat 9223372036854775808,
                       LastSignature := EncodeToString ''s1''\<rparr>],
         devices = [''X'' \<mapsto> 0]\<rparr>, resps)"
    and "list_all succeeded resps"
    unfolding state_X_def by auto
  then show ?thesis
    by (simp add: device_X_def NewDevice_def)
qed

text \<open>
  C4. Of two successful signs of a device with only failed signs between them, the
  later returns signed data whose segment after the last underscore is the signature
  string that the earlier returned.
\<close>

theorem chain_links:
  assumes "well_formed s" and "nonempty_signatures env1"
    and "SignTransaction env1 s k b1 = (s1, resp1)" and "succeeded resp1"
    and "SignTransactions s1 k calls = (s2, resps)" and "\<forall>resp \<in> set resps. \<not> succeeded resp"
    and "SignTransaction env2 s2 k b2 = (s3, resp2)" and "succeeded resp2"
  shows "trailing_segment (signed_data resp2) = signature_of resp1 \<and>
         (\<exists>pre. signed_data resp2 = pre @ ''_'' @ signature_of resp1) \<and>
         signature_of resp1 \<noteq> []"
proof -
  from succeeded_found [OF assms(1,3,4)] obtain r where r: "devices s k = Some r"
    by blast
  note first = sign_step [OF assms(1) r assms(3)]
  with assms(2,4) obtain signature where
    sig: "signature_of resp1 = EncodeToString signature" "signature \<noteq> []"
    by auto
  then have nonempty: "signature_of resp1 \<noteq> []"
    by (simp add: EncodeToString_Nil_iff)
  from first assms(4) have s1: "well_formed s1" "devices s1 k = Some r"
    and last1: "LastSignature (objects s1 ! r) = signature_of resp1"
    by (simp_all add: r IncrementCounter_def)
  have none: "filter succeeded resps = []"
    using assms(6) by (simp add: filter_empty_conv)
  from SignTransactions_structure [OF s1 assms(5)] s1
  have s2: "well_formed s2" "devices s2 k = Some r"
    by simp_all
  have last2: "LastSignature (objects s2 ! r) = signature_of resp1"
    using SignTransactions_last [OF s1 assms(5)] by (simp add: none last1)
  from sign_step [OF s2 assms(7)] assms(8) obtain x where
    "signed_data resp2 =
       Sprintf_d (sint (SignatureCounter (objects s2 ! r))) @ ''_'' @ x @ ''_'' @
       (if LastSignature (objects s2 ! r) = [] then EncodeToString (ID (objects s2 ! r))
        else LastSignature (objects s2 ! r))"
    by auto
  then have data: "signed_data resp2 =
       (Sprintf_d (sint (SignatureCounter (objects s2 ! r))) @ ''_'' @ x) @ ''_'' @ signature_of resp1"
    using nonempty by (simp add: last2)
  have "CHR ''_'' \<notin> set (signature_of resp1)"
    by (simp add: sig(1) EncodeToString_no_underscore)
  then have "trailing_segment (signed_data resp2) = signature_of resp1"
    unfolding data by (rule trailing_segment_append)
  with data nonempty show ?thesis by blast
qed

theorem chain_links_witness:
  "well_formed state_X \<and> nonempty_signatures (example_env ''s1'') \<and>
   succeeded (snd (SignTransaction (example_env ''s1'') state_X ''X'' hello)) \<and>
   \<not> succeeded (snd (SignTransaction failing_env
       (fst (SignTransaction (example_env ''s1'') state_X ''X'' hello)) ''X'' hello)) \<and>
   signature_of (snd (SignTransaction (example_env ''s1'') state_X ''X'' hello)) = ''czE='' \<and>
   signed_data (snd (SignTransaction (example_env ''s2'')
       (fst (SignTransaction (example_env ''s1'') state_X ''X'' hello)) ''X'' hello)) = ''1_hello_czE='' \<and>
   trailing_segment ''1_hello_czE='' = ''czE=''"
proof -
  let ?s1 = "\<lparr>objects = [IncrementCounter device_X ''czE=''], devices = [''X'' \<mapsto> 0]\<rparr>"
  have h1: "well_formed state_X" "nonempty_signatures (example_env ''s1'')"
    by (simp_all add: well_formed_state_X) (simp add: nonempty_signatures_def example_env_def)
  have first: "SignTransaction (example_env ''s1'') state_X ''X'' hello =
      (?s1, StatusOK, SignatureData \<lparr>Signature = ''czE='', SignedData = ''0_hello_WA==''\<rparr>)"
    unfolding state_X_def
    by (simp only: sign_single_device [OF device_X_fields(1,2,3)] base64_s1_s2 secured_examples)
  have ok1: "succeeded (StatusOK, SignatureData \<lparr>Signature = ''czE='', SignedData = ''0_hello_WA==''\<rparr>)"
    by (simp add: succeeded_def)
  have between: "SignTransactions ?s1 ''X'' [(failing_env, hello)] =
      (?s1, [(StatusInternalServerError, ErrorResponse [''Failed to sign data: EOF''])])"
    by (simp only: SignTransactions.simps fst_conv snd_conv Let_def prod.case
        fail_single_device [OF device_X_fields(4,5,6)])
  have failed: "\<forall>resp \<in> set [(StatusInternalServerError, ErrorResponse [''Failed to sign data: EOF''])].
      \<not> succeeded resp"
    by (simp add: succeeded_def status_defs)
  have second: "SignTransaction (example_env ''s2'') ?s1 ''X'' hello =
      (\<lparr>objects = [IncrementCounter (IncrementCounter device_X ''czE='') ''czI=''],
        devices = [''X'' \<mapsto> 0]\<rparr>,
       StatusOK, SignatureData \<lparr>Signature = ''czI='', SignedData = ''1_hello_czE=''\<rparr>)"
    by (simp only: sign_single_device [OF device_X_fields(4,5,6)] base64_s1_s2 secured_examples)
  have ok2: "succeeded (StatusOK, SignatureData \<lparr>Signature = ''czI='', SignedData = ''1_hello_czE=''\<rparr>)"
    by (simp add: succeeded_def)
  from chain_links [OF h1 first ok1 between failed second ok2] h1 ok1 failed
  show ?thesis
    by (simp add: first second fail_single_device [OF device_X_fields(4,5,6)])
qed

text \<open>
  C6, as the code has it. A new device has counter 0 and no last signature. After a
  run of sequential signs on it of which fewer than \<open>2^63\<close> succeeded, the counter
  is the number of successful signs, the last signature is empty exactly when the
  counter is 0, and after a successful sign the last signature is the signature string
  that the latest successful sign returned, the base64 of its signature.
\<close>

theorem chain_state:
  assumes "well_formed s" and "devices s k = Some r"
    and "objects s ! r = NewDevice k algorithm label publicKey privateKey"
    and "SignTransactions s k calls = (s', resps)"
    and "\<forall>c \<in> set calls. nonempty_signatures (fst c)"
    and "length (filter succeeded resps) < 2 ^ 63"
  shows "SignatureCounter (objects s ! r) = 0 \<and> LastSignature (objects s ! r) = [] \<and>
         sint (SignatureCounter (objects s' ! r)) = int (length (filter succeeded resps)) \<and>
         (LastSignature (objects s' ! r) = [] \<longleftrightarrow> SignatureCounter (objects s' ! r) = 0) \<and>
         (filter succeeded resps \<noteq> [] \<longrightarrow>
            LastSignature (objects s' ! r) = signature_of (last (filter succeeded resps)) \<and>
            (\<exists>signature. signature \<noteq> [] \<and>
               LastSignature (objects s' ! r) = EncodeToString signature))"
proof -
  let ?done = "filter succeeded resps"
  have new: "SignatureCounter (objects s ! r) = 0" "LastSignature (objects s ! r) = []"
    by (simp_all add: assms(3) NewDevice_def)
  have counter: "SignatureCounter (objects s' ! r) = of_nat (length ?done)"
    using SignTransactions_counter [OF assms(1,2,4)] by (simp add: new)
  then have count: "sint (SignatureCounter (objects s' ! r)) = int (length ?done)"
    using assms(6) by (simp add: sint_of_nat_small)
  have last_sig: "LastSignature (objects s' ! r) =
      (if ?done = [] then [] else signature_of (last ?done))"
    using SignTransactions_last [OF assms(1,2,4)] by (simp add: new)
  have base64: "\<exists>signature. signature \<noteq> [] \<and> signature_of (last ?done) = EncodeToString signature"
    if "?done \<noteq> []"
  proof -
    from that have "last ?done \<in> set ?done" by (rule last_in_set)
    then have "last ?done \<in> set resps" "succeeded (last ?done)" by simp_all
    with SignTransactions_signatures [OF assms(1,2,4,5)] show ?thesis by blast
  qed
  have zero: "SignatureCounter (objects s' ! r) = 0 \<longleftrightarrow> ?done = []"
  proof
    assume "SignatureCounter (objects s' ! r) = 0"
    with count have "int (length ?done) = 0" by simp
    then show "?done = []" by simp
  next
    assume "?done = []"
    with counter show "SignatureCounter (objects s' ! r) = 0" by simp
  qed
  have empty: "LastSignature (objects s' ! r) = [] \<longleftrightarrow> ?done = []"
  proof (cases "?done = []")
    case True
    then show ?thesis by (simp add: last_sig)
  next
    case False
    with base64 obtain signature where
      "signature \<noteq> []" "signature_of (last ?done) = EncodeToString signature"
      by blast
    then have "signature_of (last ?done) \<noteq> []"
      by (simp add: EncodeToString_Nil_iff)
    with False show ?thesis by (simp add: last_sig)
  qed
  from new count zero empty last_sig base64 show ?thesis
    by auto
qed

theorem chain_state_witness:
  "well_formed state_X \<and> devices state_X ''X'' = Some 0 \<and>
   objects state_X ! 0 = NewDevice ''X'' AlgorithmRSA ''till 1'' (RSAPublicKey 1) (RSAPrivateKey 2) \<and>
   nonempty_signatures (example_env ''s1'') \<and> nonempty_signatures failing_env \<and>
   nonempty_signatures (example_env ''s2'') \<and>
   filter succeeded (snd (SignTransactions state_X ''X''
      [(example_env ''s1'', hello), (failing_env, hello), (example_env ''s2'', hello)])) =
     [(StatusOK, SignatureData \<lparr>Signature = ''czE='', SignedData = ''0_hello_WA==''\<rparr>),
      (StatusOK, SignatureData \<lparr>Signature = ''czI='', SignedData = ''1_hello_czE=''\<rparr>)] \<and>
   sint (SignatureCounter (objects (fst (SignTransactions state_X ''X''
      [(example_env ''s1'', hello), (failing_env, hello), (example_env ''s2'', hello)])) ! 0)) = 2 \<and>
   LastSignature (objects (fst (SignTransactions state_X ''X''
      [(example_env ''s1'', hello), (failing_env, hello), (example_env ''s2'', hello)])) ! 0) = ''czI=''"
proof -
  have h: "well_formed state_X" "devices state_X ''X'' = Some 0"
    "objects state_X ! 0 = NewDevice ''X'' AlgorithmRSA ''till 1'' (RSAPublicKey 1) (RSAPrivateKey 2)"
    by (simp_all add: well_formed_state_X) (simp_all add: state_X_def device_X_def)
  have env: "nonempty_signatures (example_env ''s1'')" "nonempty_signatures failing_env"
    "nonempty_signatures (example_env ''s2'')"
    by (simp_all add: nonempty_signatures_def example_env_def failing_env_def)
  then have envs: "\<forall>c \<in> set [(example_env ''s1'', hello), (failing_env, hello),
      (example_env ''s2'', hello)]. nonempty_signatures (fst c)"
    by simp
  have kept: "filter succeeded
      [(StatusOK, SignatureData \<lparr>Signature = ''czE='', SignedData = ''0_hello_WA==''\<rparr>),
       (StatusInternalServerError, ErrorResponse [''Failed to sign data: EOF'']),
       (StatusOK, SignatureData \<lparr>Signature = ''czI='', SignedData = ''1_hello_czE=''\<rparr>)] =
     [(StatusOK, SignatureData \<lparr>Signature = ''czE='', SignedData = ''0_hello_WA==''\<rparr>),
      (StatusOK, SignatureData \<lparr>Signature = ''czI='', SignedData = ''1_hello_czE=''\<rparr>)]"
    by (simp add: succeeded_def status_defs)
  have few: "length (filter succeeded
      [(StatusOK, SignatureData \<lparr>Signature = ''czE='', SignedData = ''0_hello_WA==''\<rparr>),
       (StatusInternalServerError, ErrorResponse [''Failed to sign data: EOF'']),
       (StatusOK, SignatureData \<lparr>Signature = ''czI='', SignedData = ''1_hello_czE=''\<rparr>)])
      < (2::nat) ^ 63"
    unfolding kept by simp
  from chain_state [OF h sign_fail_sign envs few] h env kept show ?thesis
    by (simp add: sign_fail_sign del: SignTransactions.simps)
qed

text \<open>
  C6 as stated fails on the code: after \<open>2^64\<close> sequential successful signs on the
  new device \<open>X\<close> the counter is 0 and the last signature is not empty.
\<close>

theorem counter_zero_after_2_64_signs:
  "list_all succeeded (snd (SignTransactions state_X ''X''
      (replicate 18446744073709551616 (example_env ''s1'', hello)))) \<and>
   SignatureCounter (objects (fst (SignTransactions state_X ''X''
      (replicate 18446744073709551616 (example_env ''s1'', hello)))) ! 0) = 0 \<and>
   LastSignature (objects (fst (SignTransactions state_X ''X''
      (replicate 18446744073709551616 (example_env ''s1'', hello)))) ! 0) = ''czE=''"
proof -
  from sign_repeatedly [OF device_X_fields(1,2,3), of 18446744073709551616 "''s1''"]
  obtain resps where
    "SignTransactions state_X ''X'' (replicate 18446744073709551616 (example_env ''s1'', hello)) =
       (\<lparr>objects = [device_X\<lparr>SignatureCounter :=
                         SignatureCounter device_X + of_nat 18446744073709551616,
                       LastSignature := EncodeToString ''s1''\<rparr>],
         devices = [''X'' \<mapsto> 0]\<rparr>, resps)"
    and "list_all succeeded resps"
    unfolding state_X_def by auto
  then show ?thesis
    by (simp add: device_X_def NewDevice_def base64_s1_s2)
qed

section \<open>Concurrent calls\<close>

text \<open>A call that runs its steps without another call between them is the handler.\<close>

lemma run_one_call:
  "run [0, 0, 0, 0, 0] (s, [(env, k, Start b)]) =
     (fst (SignTransaction env s k b), [(env, k, Returned (snd (SignTransaction env s k b)))])"
proof (cases "ShouldBindJSON_SignTransactionRequest b")
  case (Inl err)
  then show ?thesis by (simp add: SignTransaction_def)
next
  case (Inr req)
  then have b: "b = Inr req" "Data req \<noteq> []"
    by (simp_all add: ShouldBindJSON_SignTransactionRequest_Inr)
  show ?thesis
  proof (cases "devices s k")
    case None
    with Inr show ?thesis by (simp add: SignTransaction_def Get_def)
  next
    case (Some r)
    note found = SignTransaction_found [OF b Some, of env]
    have start: "step env k s (Start b) = (s, GotDevice r (Data req))"
      using Inr Some by (simp add: Get_def)
    have build: "step env k s (GotDevice r (Data req)) =
        (s, GotSecuredData r (snd (GetSecuredDataToSign (objects s ! r) (Data req))))"
      by (simp add: case_prod_beta)
    show ?thesis
    proof (cases "make_signer env (objects s ! r)")
      case (Inl failure)
      with found start build show ?thesis by simp
    next
      case signer: (Inr signer)
      show ?thesis
      proof (cases "signer (snd (GetSecuredDataToSign (objects s ! r) (Data req)))")
        case (Inl err)
        with signer found start build show ?thesis by simp
      next
        case (Inr signature)
        show ?thesis
        proof (cases "Update (s\<lparr>objects := list_update (objects s) r
                (IncrementCounter (objects s ! r) (EncodeToString signature))\<rparr>) r")
          case (Inl err)
          with Inr signer found start build show ?thesis by simp
        next
          case updated: (Inr s3)
          with Inr signer found start build show ?thesis by simp
        qed
      qed
    qed
  qed
qed

text \<open>The steps of a call on the example server.\<close>

lemma steps_single_device:
  assumes "ID d = ''X''" and "Algorithm d = AlgorithmRSA" and "PrivateKey d = RSAPrivateKey key"
  shows "step (example_env sig) ''X'' \<lparr>objects = [d], devices = [''X'' \<mapsto> 0]\<rparr> (Start hello) =
           (\<lparr>objects = [d], devices = [''X'' \<mapsto> 0]\<rparr>, GotDevice 0 ''hello'')"
    and "step (example_env sig) ''X'' \<lparr>objects = [d], devices = [''X'' \<mapsto> 0]\<rparr> (GotDevice 0 x) =
           (\<lparr>objects = [d], devices = [''X'' \<mapsto> 0]\<rparr>,
            GotSecuredData 0 (snd (GetSecuredDataToSign d x)))"
    and "step (example_env sig) ''X'' \<lparr>objects = [d], devices = [''X'' \<mapsto> 0]\<rparr>
             (GotSecuredData 0 securedData) =
           (\<lparr>objects = [d], devices = [''X'' \<mapsto> 0]\<rparr>,
            GotSignature 0 securedData (EncodeToString sig))"
    and "step (example_env sig) ''X'' \<lparr>objects = [d], devices = [''X'' \<mapsto> 0]\<rparr>
             (GotSignature 0 securedData signatureBase64) =
           (\<lparr>objects = [IncrementCounter d signatureBase64], devices = [''X'' \<mapsto> 0]\<rparr>,
            Incremented 0 securedData signatureBase64)"
    and "step (example_env sig) ''X'' \<lparr>objects = [d], devices = [''X'' \<mapsto> 0]\<rparr>
             (Incremented 0 securedData signatureBase64) =
           (\<lparr>objects = [d], devices = [''X'' \<mapsto> 0]\<rparr>,
            Returned (StatusOK, SignatureData \<lparr>Signature = signatureBase64,
                                                SignedData = securedData\<rparr>))"
  using assms
  by (simp_all add: hello_def ShouldBindJSON_SignTransactionRequest_def Get_def case_prod_beta
      make_signer_def GetRSAPrivateKey_def example_env_def Update_def Let_def)

lemma device_X_twice:
  "ID (IncrementCounter (IncrementCounter device_X x) y) = ''X''"
  "Algorithm (IncrementCounter (IncrementCounter device_X x) y) = AlgorithmRSA"
  "PrivateKey (IncrementCounter (IncrementCounter device_X x) y) = RSAPrivateKey 2"
  by (simp_all add: device_X_def NewDevice_def IncrementCounter_def)

lemmas steps_device_X =
  steps_single_device [OF device_X_fields(1,2,3)]
  steps_single_device [OF device_X_fields(4,5,6)]
  steps_single_device [OF device_X_twice]

text \<open>The same two calls one after the other: the second signs with counter 1.\<close>

lemma serial_signs_differ:
  "map response_of
     (snd (run [0, 0, 0, 0, 0, 1, 1, 1, 1, 1]
             (state_X, [(example_env ''s1'', ''X'', Start hello),
                        (example_env ''s2'', ''X'', Start hello)]))) =
     [Some (StatusOK, SignatureData \<lparr>Signature = ''czE='', SignedData = ''0_hello_WA==''\<rparr>),
      Some (StatusOK, SignatureData \<lparr>Signature = ''czI='', SignedData = ''1_hello_czE=''\<rparr>)]"
  by (simp add: state_X_def steps_device_X secured_examples base64_s1_s2 del: step.simps)

text \<open>
  Whatever the schedule, every increment of the counter is the increment of one call:
  the counter of the device is its initial value plus the number of calls that have
  incremented it.
\<close>

lemma make_signer_failure:
  "make_signer env d = Inl failure \<Longrightarrow> \<not> succeeded failure"
  by (auto simp: make_signer_def succeeded_def status_defs split: if_splits sum.splits)

lemma step_counter:
  assumes "well_formed s" and "devices s k = Some r"
    and "device_of c = None \<or> device_of c = Some r"
    and "step env k s c = (s', c')"
  shows "well_formed s' \<and> devices s' = devices s \<and>
         (device_of c' = None \<or> device_of c' = Some r) \<and>
         SignatureCounter (objects s' ! r) + of_nat (increments c) =
           SignatureCounter (objects s ! r) + of_nat (increments c')"
proof -
  from assms(1,2) have len: "r < length (objects s)" and idr: "ID (objects s ! r) = k"
    using wf_lookup by blast+
  show ?thesis
  proof (cases c)
    case (Start b)
    with assms(1,2,4) show ?thesis
      by (auto simp: Get_def succeeded_def status_defs split: sum.splits)
  next
    case (GotDevice device x)
    with assms(1,3,4) show ?thesis
      by (auto simp: case_prod_beta)
  next
    case (GotSecuredData device securedData)
    with assms(1,3,4) show ?thesis
      by (auto simp: succeeded_def status_defs dest: make_signer_failure split: sum.splits)
  next
    case (GotSignature device securedData signatureBase64)
    with assms(3) have "device = r" by simp
    with GotSignature assms(4) have
      s': "s' = s\<lparr>objects := list_update (objects s) r
                    (IncrementCounter (objects s ! r) signatureBase64)\<rparr>"
      and c': "c' = Incremented r securedData signatureBase64"
      by simp_all
    have "well_formed s'"
      unfolding s' using assms(1) by (rule wf_commit)
    moreover have "SignatureCounter (objects s' ! r) = SignatureCounter (objects s ! r) + 1"
      using len by (simp add: s' IncrementCounter_def)
    ultimately show ?thesis
      using GotSignature by (simp add: s' c')
  next
    case (Incremented device securedData signatureBase64)
    with assms(3) have "device = r" by simp
    moreover have "Update s r = Inr s"
      using assms(2) idr by (simp add: Update_def fun_upd_idem)
    ultimately show ?thesis
      using Incremented assms(1,4) by (auto simp: succeeded_def)
  next
    case (Returned resp)
    with assms(1,4) show ?thesis by auto
  qed
qed

lemma sum_list_update:
  assumes "i < length xs"
  shows "sum_list (map f (list_update xs i y)) + f (xs ! i) = sum_list (map f xs) + (f y :: nat)"
  using assms
proof (induction xs arbitrary: i)
  case Nil
  then show ?case by simp
next
  case (Cons x xs)
  then show ?case by (cases i) (simp_all add: add.assoc add.left_commute)
qed

lemma run_counter:
  assumes "well_formed s" and "devices s k = Some r"
    and "\<forall>c \<in> set cs. fst (snd c) = k \<and>
           (device_of (snd (snd c)) = None \<or> device_of (snd (snd c)) = Some r)"
    and "run schedule (s, cs) = (s', cs')"
  shows "SignatureCounter (objects s' ! r) + of_nat (sum_list (map (\<lambda>c. increments (snd (snd c))) cs)) =
         SignatureCounter (objects s ! r) + of_nat (sum_list (map (\<lambda>c. increments (snd (snd c))) cs')) \<and>
         length cs' = length cs"
  using assms
proof (induction schedule arbitrary: s cs)
  case Nil
  then show ?case by simp
next
  case (Cons i schedule)
  show ?case
  proof (cases "i < length cs")
    case False
    with Cons.prems(4) have "run schedule (s, cs) = (s', cs')" by simp
    from Cons.IH [OF Cons.prems(1,2,3) this] show ?thesis .
  next
    case True
    obtain env k' c where call: "cs ! i = (env, k', c)"
      by (cases "cs ! i")
    obtain s1 c1 where st: "step env k' s c = (s1, c1)"
      by (cases "step env k' s c")
    from True call Cons.prems(3) have k': "k' = k"
      and dev: "device_of c = None \<or> device_of c = Some r"
      using nth_mem [of i cs] by auto
    note one = step_counter [OF Cons.prems(1,2) dev st [unfolded k']]
    let ?cs1 = "list_update cs i (env, k, c1)"
    have rest: "run schedule (s1, ?cs1) = (s', cs')"
      using Cons.prems(4) True call st k' by simp
    have all1: "\<forall>c \<in> set ?cs1. fst (snd c) = k \<and>
           (device_of (snd (snd c)) = None \<or> device_of (snd (snd c)) = Some r)"
    proof
      fix x assume "x \<in> set ?cs1"
      then have "x = (env, k, c1) \<or> x \<in> set cs"
        using set_update_subset_insert [of cs i "(env, k, c1)"] by auto
      with one Cons.prems(3) show "fst (snd x) = k \<and>
           (device_of (snd (snd x)) = None \<or> device_of (snd (snd x)) = Some r)"
        by auto
    qed
    from one have wf1: "well_formed s1" and dev1: "devices s1 k = Some r"
      using Cons.prems(2) by simp_all
    note IH = Cons.IH [OF wf1 dev1 all1 rest]
    let ?f = "\<lambda>c. increments (snd (snd c))"
    have sums: "sum_list (map ?f ?cs1) + increments c = sum_list (map ?f cs) + increments c1"
      using sum_list_update [OF True, of ?f "(env, k, c1)"] by (simp add: call)
    have step_eq: "SignatureCounter (objects s1 ! r) + of_nat (increments c) =
           SignatureCounter (objects s ! r) + of_nat (increments c1)"
      using one by simp
    from IH have run_eq: "SignatureCounter (objects s' ! r) + of_nat (sum_list (map ?f ?cs1)) =
         SignatureCounter (objects s1 ! r) + of_nat (sum_list (map ?f cs'))"
      and len: "length cs' = length cs"
      by simp_all
    have "SignatureCounter (objects s' ! r) + of_nat (sum_list (map ?f cs)) + of_nat (increments c1)
        = SignatureCounter (objects s' ! r) + of_nat (sum_list (map ?f ?cs1)) + of_nat (increments c)"
      using arg_cong [OF sums, of "of_nat :: nat \<Rightarrow> 64 word"] by (simp add: add.assoc)
    also have "\<dots> = SignatureCounter (objects s1 ! r) + of_nat (sum_list (map ?f cs'))
        + of_nat (increments c)"
      by (simp only: run_eq)
    also have "\<dots> = SignatureCounter (objects s ! r) + of_nat (sum_list (map ?f cs'))
        + of_nat (increments c1)"
      using step_eq by (simp add: add.assoc add.left_commute add.commute)
    finally have "SignatureCounter (objects s' ! r) + of_nat (sum_list (map ?f cs)) =
        SignatureCounter (objects s ! r) + of_nat (sum_list (map ?f cs'))"
      by simp
    with len show ?thesis by simp
  qed
qed

text \<open>
  So \<open>m\<close> concurrent calls that all return with success leave the counter at its
  initial value plus \<open>m\<close>, whatever the schedule.
\<close>

lemma concurrent_counter:
  assumes "well_formed s" and "devices s k = Some r"
    and "\<forall>c \<in> set cs. fst (snd c) = k \<and> (\<exists>b. snd (snd c) = Start b)"
    and "run schedule (s, cs) = (s', cs')"
    and "\<forall>c \<in> set cs'. \<exists>resp. snd (snd c) = Returned resp \<and> succeeded resp"
  shows "SignatureCounter (objects s' ! r) = SignatureCounter (objects s ! r) + of_nat (length cs)"
proof -
  let ?f = "\<lambda>c. increments (snd (snd c))"
  have start: "\<forall>c \<in> set cs. fst (snd c) = k \<and>
           (device_of (snd (snd c)) = None \<or> device_of (snd (snd c)) = Some r)"
    using assms(3) by auto
  have "map ?f cs = replicate (length cs) 0"
    using assms(3) by (intro replicate_eqI) auto
  then have zero: "sum_list (map ?f cs) = 0"
    by (simp add: sum_list_replicate)
  have "map ?f cs' = replicate (length cs') 1"
    using assms(5) by (intro replicate_eqI) auto
  then have all: "sum_list (map ?f cs') = length cs'"
    by (simp add: sum_list_replicate)
  from run_counter [OF assms(1,2) start assms(4)] zero all show ?thesis
    by simp
qed

text \<open>
  C1. Two concurrent calls for the device \<open>X\<close>, both signing \<open>hello\<close>, scheduled
  step by step in turn: both read the device before either increments it. Both calls
  succeed and return the same signed data, with counter 0 and the same predecessor,
  and the counter of the device ends at 2.
\<close>

theorem interleaved_signs_share_counter:
  "map response_of
     (snd (run [0, 1, 0, 1, 0, 1, 0, 1, 0, 1]
             (state_X, [(example_env ''s1'', ''X'', Start hello),
                        (example_env ''s2'', ''X'', Start hello)]))) =
     [Some (StatusOK, SignatureData \<lparr>Signature = ''czE='', SignedData = ''0_hello_WA==''\<rparr>),
      Some (StatusOK, SignatureData \<lparr>Signature = ''czI='', SignedData = ''0_hello_WA==''\<rparr>)] \<and>
   SignatureCounter (objects (fst (run [0, 1, 0, 1, 0, 1, 0, 1, 0, 1]
             (state_X, [(example_env ''s1'', ''X'', Start hello),
                        (example_env ''s2'', ''X'', Start hello)]))) ! 0) = 2"
  by (simp add: state_X_def steps_device_X secured_examples base64_s1_s2 del: step.simps)
    (simp add: IncrementCounter_def device_X_def NewDevice_def)

section \<open>Reading the secured string\<close>

text \<open>A request that commits no signature of a device leaves the device as it is.\<close>

lemma Run_without_commit:
  assumes "well_formed s" and "r < length (objects s)"
    and "\<forall>k b. req = SignTransactionRequest_of k b \<and> devices s k = Some r \<longrightarrow>
           \<not> succeeded (snd (SignTransaction env s k b))"
  shows "objects (Run env s req) ! r = objects s ! r"
proof (cases req)
  case HealthRequest
  then show ?thesis by (simp add: Health_def)
next
  case (CreateDeviceRequest_of b)
  show ?thesis
  proof (cases rule: CreateDevice_state [of env s b])
    case unchanged
    with CreateDeviceRequest_of show ?thesis by simp
  next
    case (conflict d)
    with CreateDeviceRequest_of assms(2) show ?thesis by (simp add: nth_append)
  next
    case (created d)
    with CreateDeviceRequest_of assms(2) show ?thesis by (simp add: nth_append)
  qed
next
  case ListDevicesRequest
  then show ?thesis by (simp add: ListDevices_def List_devices_def)
next
  case (GetDeviceRequest k)
  then show ?thesis by (simp add: GetDevice_def split: sum.splits)
next
  case (SignTransactionRequest_of k b)
  from assms(1) show ?thesis
  proof (rule SignTransaction_cases [of s env k b "fst (SignTransaction env s k b)"
        "snd (SignTransaction env s k b)"])
    show "SignTransaction env s k b = (fst (SignTransaction env s k b), snd (SignTransaction env s k b))"
      by simp
  next
    assume "fst (SignTransaction env s k b) = s"
    with SignTransactionRequest_of show ?thesis by simp
  next
    fix req' :: SignTransactionRequest and r' signature
    assume h: "devices s k = Some r'"
      "snd (SignTransaction env s k b) =
         (StatusOK, SignatureData \<lparr>Signature = EncodeToString signature,
            SignedData = snd (GetSecuredDataToSign (objects s ! r') (Data req'))\<rparr>)"
      "fst (SignTransaction env s k b) = s\<lparr>objects := list_update (objects s) r'
            (IncrementCounter (objects s ! r') (EncodeToString signature))\<rparr>"
    from h(2) have "succeeded (snd (SignTransaction env s k b))"
      by (simp add: succeeded_def)
    with assms(3) SignTransactionRequest_of h(1) have "r' \<noteq> r" by auto
    with SignTransactionRequest_of h(3) show ?thesis by simp
  qed
qed

text \<open>An \<^verbatim>\<open>IncrementCounter\<close> between two calls changes the string.\<close>

lemma GetSecuredDataToSign_after_IncrementCounter:
  "snd (GetSecuredDataToSign (IncrementCounter d signature) x) \<noteq> snd (GetSecuredDataToSign d x)"
proof
  assume "snd (GetSecuredDataToSign (IncrementCounter d signature) x) = snd (GetSecuredDataToSign d x)"
  then have "embedded_counter (snd (GetSecuredDataToSign (IncrementCounter d signature) x)) =
             embedded_counter (snd (GetSecuredDataToSign d x))"
    by simp
  then have "Sprintf_d (sint (SignatureCounter d + 1)) = Sprintf_d (sint (SignatureCounter d))"
    by (simp add: GetSecuredDataToSign_def Let_def IncrementCounter_def
        embedded_counter_def takeWhile_until [OF Sprintf_d_no_underscore])
  then have "parse_int (Sprintf_d (sint (SignatureCounter d + 1))) =
             parse_int (Sprintf_d (sint (SignatureCounter d)))"
    by simp
  then have "sint (SignatureCounter d + 1) = sint (SignatureCounter d)"
    by (simp only: parse_int_Sprintf_d)
  then have "SignatureCounter d + 1 = SignatureCounter d"
    by (rule signed_word_eqI)
  then show False by simp
qed

text \<open>
  C10. \<^verbatim>\<open>GetSecuredDataToSign\<close> can be called on its own, leaves the device as it was,
  field by field, and returns the same string when it is called again with the same
  input, also after the server has handled a request that did not commit a signature
  of the device, the only place where \<^verbatim>\<open>IncrementCounter\<close> is called. The handler's
  call of it leaves the whole server state as it was.
\<close>

theorem GetSecuredDataToSign_read_only:
  "fst (GetSecuredDataToSign d x) = d \<and>
   snd (GetSecuredDataToSign (fst (GetSecuredDataToSign d x)) x) = snd (GetSecuredDataToSign d x) \<and>
   step env k s (GotDevice r x) =
     (s, GotSecuredData r (snd (GetSecuredDataToSign (objects s ! r) x))) \<and>
   (well_formed s \<and> r < length (objects s) \<and>
    (\<forall>k b. req = SignTransactionRequest_of k b \<and> devices s k = Some r \<longrightarrow>
       \<not> succeeded (snd (SignTransaction env s k b))) \<longrightarrow>
      GetSecuredDataToSign (objects (Run env s req) ! r) x = GetSecuredDataToSign (objects s ! r) x)"
proof (intro conjI impI)
  show "fst (GetSecuredDataToSign d x) = d"
    by (simp add: GetSecuredDataToSign_def Let_def)
  then show "snd (GetSecuredDataToSign (fst (GetSecuredDataToSign d x)) x) =
      snd (GetSecuredDataToSign d x)"
    by simp
  show "step env k s (GotDevice r x) =
     (s, GotSecuredData r (snd (GetSecuredDataToSign (objects s ! r) x)))"
    by (simp add: case_prod_beta)
next
  assume "well_formed s \<and> r < length (objects s) \<and>
    (\<forall>k b. req = SignTransactionRequest_of k b \<and> devices s k = Some r \<longrightarrow>
       \<not> succeeded (snd (SignTransaction env s k b)))"
  then have "objects (Run env s req) ! r = objects s ! r"
    using Run_without_commit [of s r req env] by blast
  then show "GetSecuredDataToSign (objects (Run env s req) ! r) x =
      GetSecuredDataToSign (objects s ! r) x"
    by simp
qed

theorem GetSecuredDataToSign_read_only_witness:
  "well_formed state_X \<and> (0::nat) < length (objects state_X) \<and>
   \<not> succeeded (snd (SignTransaction failing_env state_X ''X'' hello)) \<and>
   GetSecuredDataToSign
     (objects (Run failing_env state_X (SignTransactionRequest_of ''X'' hello)) ! 0) ''hello'' =
     (device_X, ''0_hello_WA=='') \<and>
   GetSecuredDataToSign (objects state_X ! 0) ''hello'' = (device_X, ''0_hello_WA=='')"
proof -
  have failed: "SignTransaction failing_env state_X ''X'' hello =
      (state_X, StatusInternalServerError, ErrorResponse [''Failed to sign data: EOF''])"
    unfolding state_X_def by (rule fail_single_device [OF device_X_fields(1,2,3)])
  have h: "well_formed state_X" "(0::nat) < length (objects state_X)"
    "\<forall>k b. SignTransactionRequest_of ''X'' hello = SignTransactionRequest_of k b \<and>
       devices state_X k = Some 0 \<longrightarrow> \<not> succeeded (snd (SignTransaction failing_env state_X k b))"
    by (simp_all add: well_formed_state_X failed succeeded_def status_defs)
      (simp add: state_X_def)
  have first: "GetSecuredDataToSign (objects state_X ! 0) ''hello'' = (device_X, ''0_hello_WA=='')"
    using secured_examples(1) by (simp add: state_X_def prod_eq_iff)
  from GetSecuredDataToSign_read_only
    [of device_X "''hello''" failing_env "''X''" state_X 0 "SignTransactionRequest_of ''X'' hello"]
    h first
  show ?thesis
    by (simp add: failed succeeded_def status_defs)
qed

end
